theory Spec2Isabelle
  imports Complex_Main "HOL-Library.Sublist" "HOL-Library.Log_Nat"
begin

section \<open>JavaScript values\<close>

text \<open>
  The dashboard of \<^verbatim>\<open>src/app/page.tsx\<close> reads a JSON payload whose rows are typed
  \<^verbatim>\<open>any[][]\<close>, so a cell is any JSON scalar, or \<^verbatim>\<open>undefined\<close> when an index is out
  of range. Nested arrays and objects as cells are left out of the model, and every row
  is taken to be an array.

  A JavaScript number is an IEEE 754 double: \<^verbatim>\<open>NaN\<close>, an infinity, or a finite value,
  kept here as the rational it is. Every operation rounds its exact result to the
  nearest double (\<open>to_double\<close> below). The sign of zero is not modelled: nothing in the
  page tells \<open>-0\<close> from \<open>0\<close>.
\<close>

datatype number = NaN | NegInf | PosInf | Fin rat

datatype cell = Undefined | Null | Bool bool | Num number | Str string

datatype error = TypeError

text \<open>\<^verbatim>\<open>ToBoolean\<close>: what \<^verbatim>\<open>!x\<close> and \<^verbatim>\<open>x || y\<close> test.\<close>

fun truthy :: "cell \<Rightarrow> bool" where
  "truthy Undefined = False"
| "truthy Null = False"
| "truthy (Bool b) = b"
| "truthy (Num NaN) = False"
| "truthy (Num (Fin r)) = (r \<noteq> 0)"
| "truthy (Num _) = True"
| "truthy (Str s) = (s \<noteq> [])"

text \<open>\<^verbatim>\<open>a || b\<close>\<close>

definition or_else :: "cell \<Rightarrow> cell \<Rightarrow> cell" where
  "or_else a b = (if truthy a then a else b)"

subsection \<open>Rounding to a double\<close>

text \<open>Rounding to the nearest integer, a tie going to the even one.\<close>

definition round_half_even :: "rat \<Rightarrow> int" where
  "round_half_even x =
     (let f = \<lfloor>x\<rfloor>; d = x - of_int f
      in if d < 1 / 2 then f else if 1 / 2 < d then f + 1 else if even f then f else f + 1)"

text \<open>
  The binary exponent of a positive rational \<open>a\<close>: the \<open>e\<close> with \<open>2\<^sup>e \<le> a < 2\<^sup>e\<^sup>+\<^sup>1\<close>,
  found from the bit lengths of numerator and denominator.
\<close>

definition ilog2 :: "rat \<Rightarrow> int" where
  "ilog2 a =
     (let (p, q) = quotient_of a; d = bitlen p - bitlen q
      in if 2 powi d \<le> a then d else d - 1)"

text \<open>\<open>2\<^sup>1\<^sup>0\<^sup>2\<^sup>4\<close>, written out: what rounds to it or beyond is an infinity.\<close>

definition overflow_threshold :: rat where
  "overflow_threshold = 179769313486231590772930519078902473361797697894230657273430081157732675805500963132708477322407536021120113879871393357658789768814416622492847430639474124377767893424865485276302219601246094119453082952085005768838150682342462881473913110540827237163350510684586298239947245938479716304835356329624224137216"

text \<open>
  A positive rational rounded to 53 significant bits, or to a multiple of \<open>2\<^sup>-\<^sup>1\<^sup>0\<^sup>7\<^sup>4\<close>
  when it is that small (the subnormal doubles), a tie going to the even significand.
\<close>

definition round_magnitude :: "rat \<Rightarrow> number" where
  "round_magnitude a =
     (let q = max (ilog2 a - 52) (- 1074);
          v = of_int (round_half_even (a / 2 powi q)) * 2 powi q
      in if overflow_threshold \<le> v then PosInf else Fin v)"

fun neg :: "number \<Rightarrow> number" where
  "neg NaN = NaN"
| "neg NegInf = PosInf"
| "neg PosInf = NegInf"
| "neg (Fin a) = Fin (- a)"

definition to_double :: "rat \<Rightarrow> number" where
  "to_double r =
     (if r = 0 then Fin 0 else if r < 0 then neg (round_magnitude (- r)) else round_magnitude r)"

subsection \<open>Arithmetic on numbers\<close>

fun add :: "number \<Rightarrow> number \<Rightarrow> number" where
  "add NaN _ = NaN"
| "add _ NaN = NaN"
| "add PosInf NegInf = NaN"
| "add NegInf PosInf = NaN"
| "add PosInf _ = PosInf"
| "add _ PosInf = PosInf"
| "add NegInf _ = NegInf"
| "add _ NegInf = NegInf"
| "add (Fin a) (Fin b) = to_double (a + b)"

definition sub :: "number \<Rightarrow> number \<Rightarrow> number" where
  "sub a b = add a (neg b)"

text \<open>Division by an array length, a natural number; by zero as IEEE has it.\<close>

fun div_by :: "number \<Rightarrow> nat \<Rightarrow> number" where
  "div_by NaN n = NaN"
| "div_by PosInf n = PosInf"
| "div_by NegInf n = NegInf"
| "div_by (Fin a) n =
     (if n = 0 then (if a = 0 then NaN else if 0 < a then PosInf else NegInf)
      else to_double (a / of_nat n))"

definition isNaN :: "number \<Rightarrow> bool" where
  "isNaN x = (x = NaN)"

text \<open>\<open>x > 0\<close> and \<open>x < 0\<close> on numbers: false on \<^verbatim>\<open>NaN\<close>.\<close>

fun positive :: "number \<Rightarrow> bool" where
  "positive PosInf = True"
| "positive (Fin r) = (0 < r)"
| "positive _ = False"

fun negative :: "number \<Rightarrow> bool" where
  "negative NegInf = True"
| "negative (Fin r) = (r < 0)"
| "negative _ = False"

section \<open>Strings\<close>

text \<open>
  Strings are lists of 8-bit characters; the model covers ASCII text. Of the white space
  that \<^verbatim>\<open>parseFloat\<close> and \<^verbatim>\<open>parseInt\<close> skip, only the ASCII characters are modelled,
  and \<^verbatim>\<open>toLowerCase\<close> maps the letters A to Z only, as it does on ASCII text.
\<close>

text \<open>\<^verbatim>\<open>s.split(c)\<close> with a one-character separator: never an empty array.\<close>

fun split :: "char \<Rightarrow> string \<Rightarrow> string list" where
  "split c [] = [[]]"
| "split c (x # xs) =
     (if x = c then [] # split c xs
      else (case split c xs of [] \<Rightarrow> [[x]] | p # ps \<Rightarrow> (x # p) # ps))"

text \<open>\<^verbatim>\<open>s.replace('*', '')\<close>: a string pattern replaces the first occurrence only.\<close>

definition replace_star :: "string \<Rightarrow> string" where
  "replace_star s = remove1 (CHR ''*'') s"

definition is_space :: "char \<Rightarrow> bool" where
  "is_space c = (c \<in> set [CHR 0x09, CHR 0x0A, CHR 0x0B, CHR 0x0C, CHR 0x0D, CHR '' ''])"

definition trim_start :: "string \<Rightarrow> string" where
  "trim_start s = dropWhile is_space s"

definition hex_digit :: "char \<Rightarrow> int option" where
  "hex_digit c = map_of
     [(CHR ''0'', 0), (CHR ''1'', 1), (CHR ''2'', 2), (CHR ''3'', 3), (CHR ''4'', 4),
      (CHR ''5'', 5), (CHR ''6'', 6), (CHR ''7'', 7), (CHR ''8'', 8), (CHR ''9'', 9),
      (CHR ''a'', 10), (CHR ''b'', 11), (CHR ''c'', 12), (CHR ''d'', 13), (CHR ''e'', 14),
      (CHR ''f'', 15), (CHR ''A'', 10), (CHR ''B'', 11), (CHR ''C'', 12), (CHR ''D'', 13),
      (CHR ''E'', 14), (CHR ''F'', 15)] c"

text \<open>The value of a character as a digit of the given radix (10 or 16).\<close>

definition digit :: "int \<Rightarrow> char \<Rightarrow> int option" where
  "digit radix c =
     (case hex_digit c of None \<Rightarrow> None
      | Some d \<Rightarrow> if d < radix then Some d else None)"

definition is_digit :: "int \<Rightarrow> char \<Rightarrow> bool" where
  "is_digit radix c = (digit radix c \<noteq> None)"

text \<open>The number a string of digits denotes, most significant digit first.\<close>

definition digits_value :: "int \<Rightarrow> string \<Rightarrow> int" where
  "digits_value radix ds =
     foldl (\<lambda>acc c. acc * radix + (case digit radix c of None \<Rightarrow> 0 | Some d \<Rightarrow> d)) 0 ds"

text \<open>An optional sign: the sign read and the rest of the string.\<close>

fun take_sign :: "string \<Rightarrow> bool \<times> string" where
  "take_sign [] = (False, [])"
| "take_sign (c # cs) =
     (if c = CHR ''-'' then (True, cs)
      else if c = CHR ''+'' then (False, cs)
      else (False, c # cs))"

text \<open>
  \<^verbatim>\<open>parseInt(s)\<close> with no radix: leading white space, an optional sign, an optional
  \<^verbatim>\<open>0x\<close> prefix, then the longest run of digits; \<^verbatim>\<open>NaN\<close> when the run is empty, and
  otherwise the double nearest to the integer read. (Past twenty significant digits the
  language lets an engine read the later digits as zeros; the model rounds the integer
  as written, as the common engines do.)
\<close>

definition parseInt :: "string \<Rightarrow> number" where
  "parseInt s =
     (let (minus, s1) = take_sign (trim_start s);
          hex = (take 2 s1 = ''0x'' \<or> take 2 s1 = ''0X'');
          radix = (if hex then 16 else 10);
          s2 = (if hex then drop 2 s1 else s1);
          z = takeWhile (is_digit radix) s2
      in if z = [] then NaN
         else to_double ((if minus then - 1 else 1) * of_int (digits_value radix z)))"

text \<open>
  \<^verbatim>\<open>parseFloat(s)\<close>: leading white space, then the longest prefix that is a decimal
  literal: an optional sign, then \<^verbatim>\<open>Infinity\<close>, or digits with an optional fraction and
  an optional exponent. \<^verbatim>\<open>NaN\<close> when there is no such prefix, and otherwise the double
  nearest to the value of the literal.
\<close>

definition scale10 :: "rat \<Rightarrow> int \<Rightarrow> rat" where
  "scale10 m e = (if 0 \<le> e then m * 10 ^ nat e else m / 10 ^ nat (- e))"

definition exponent :: "string \<Rightarrow> int" where
  "exponent s =
     (case s of [] \<Rightarrow> 0
      | c # cs \<Rightarrow>
          if c = CHR ''e'' \<or> c = CHR ''E'' then
            (let (minus, ds) = take_sign cs; z = takeWhile (is_digit 10) ds
             in if z = [] then 0
                else (if minus then - 1 else 1) * digits_value 10 z)
          else 0)"

definition parse_unsigned :: "string \<Rightarrow> number" where
  "parse_unsigned s =
     (if take 8 s = ''Infinity'' then PosInf
      else
        let ip = takeWhile (is_digit 10) s;
            r1 = dropWhile (is_digit 10) s;
            dot = (r1 \<noteq> [] \<and> hd r1 = CHR ''.'');
            fp = (if dot then takeWhile (is_digit 10) (tl r1) else []);
            r2 = (if dot then dropWhile (is_digit 10) (tl r1) else r1)
        in if ip = [] \<and> fp = [] then NaN
           else to_double (scale10 (of_int (digits_value 10 (ip @ fp)))
                             (exponent r2 - int (length fp))))"

definition parseFloat :: "string \<Rightarrow> number" where
  "parseFloat s =
     (let (minus, s1) = take_sign (trim_start s); v = parse_unsigned s1
      in if minus then neg v else v)"

section \<open>The row decoder\<close>

text \<open>
  \<^verbatim>\<open>parseEnvScore\<close> and \<^verbatim>\<open>parseTotalSamples\<close> are declared on a \<^verbatim>\<open>string\<close>, yet receive
  whatever the row holds. A falsy value returns at the first line; on any other value
  \<^verbatim>\<open>scoreStr.split\<close> is called, which only a string has: the call throws a TypeError on
  a number or a boolean.
\<close>

definition parseEnvScore :: "cell \<Rightarrow> error + number option" where
  "parseEnvScore scoreStr =
     (if \<not> truthy scoreStr \<or> scoreStr = Str [] then Inr None
      else case scoreStr of
        Str s \<Rightarrow>
          (let parts = split (CHR ''/'') s
           in if length parts < 1 then Inr None
              else let accuracy = parseFloat (replace_star (hd parts))
                   in Inr (if isNaN accuracy then None else Some accuracy))
      | _ \<Rightarrow> Inl TypeError)"

definition parseTotalSamples :: "cell \<Rightarrow> error + number" where
  "parseTotalSamples scoreStr =
     (if \<not> truthy scoreStr \<or> scoreStr = Str [] then Inr (Fin 0)
      else case scoreStr of
        Str s \<Rightarrow>
          (let parts = split (CHR ''/'') s
           in if length parts < 3 then Inr (Fin 0)
              else let samples = parseInt (parts ! 2)
                   in Inr (if isNaN samples then Fin 0 else samples))
      | _ \<Rightarrow> Inl TypeError)"

text \<open>
  \<^verbatim>\<open>headerMap\<close> is filled by \<^verbatim>\<open>header.forEach((h, i) => headerMap[h] = i)\<close>: of two columns
  with one name the later index stays. Assigning a number to the name \<^verbatim>\<open>__proto__\<close> does
  nothing, so a column of that name is never stored. A name that is not stored reads as
  \<^verbatim>\<open>undefined\<close> or as a value inherited from \<^verbatim>\<open>Object.prototype\<close> (\<^verbatim>\<open>constructor\<close>,
  \<^verbatim>\<open>__proto__\<close>, ...); indexing the row with either yields \<^verbatim>\<open>undefined\<close>, so the model has
  \<open>None\<close> for both.
\<close>

definition headerMap :: "string list \<Rightarrow> string \<Rightarrow> nat option" where
  "headerMap header =
     fold (\<lambda>(h, i) m. if h = ''__proto__'' then m else m(h \<mapsto> i))
       (zip header [0..<length header]) Map.empty"

text \<open>\<^verbatim>\<open>row[headerMap[name]]\<close>: \<^verbatim>\<open>undefined\<close> for a missing name or an index past the row.\<close>

definition cell_at :: "cell list \<Rightarrow> nat option \<Rightarrow> cell" where
  "cell_at row i =
     (case i of None \<Rightarrow> Undefined
      | Some k \<Rightarrow> if k < length row then row ! k else Undefined)"

text \<open>
  An object as the list of its properties in the order of their creation: assigning to
  a name it has keeps the name's place.
\<close>

fun set_prop :: "(string \<times> 'v) list \<Rightarrow> string \<Rightarrow> 'v \<Rightarrow> (string \<times> 'v) list" where
  "set_prop [] k v = [(k, v)]"
| "set_prop ((k', v') # ps) k v =
     (if k' = k then (k, v) # ps else (k', v') # set_prop ps k v)"

text \<open>
  A property name is an array index when it is the decimal writing, with no leading
  zero, of an integer below \<open>2\<^sup>3\<^sup>2 - 1\<close>.
\<close>

definition array_index :: "string \<Rightarrow> int option" where
  "array_index k =
     (if k \<noteq> [] \<and> list_all (is_digit 10) k \<and> (k = ''0'' \<or> hd k \<noteq> CHR ''0'')
         \<and> digits_value 10 k < 4294967295
      then Some (digits_value 10 k) else None)"

text \<open>
  \<^verbatim>\<open>Object.values(obj)\<close>: the properties whose names are array indices first, by
  ascending index, then the others in the order of their creation.
\<close>

definition object_values :: "(string \<times> 'v) list \<Rightarrow> 'v list" where
  "object_values obj =
     map snd (sort_key fst
        (List.map_filter (\<lambda>(k, v). map_option (\<lambda>n. (n, v)) (array_index k)) obj))
     @ map snd (filter (\<lambda>(k, v). array_index k = None) obj)"

text \<open>\<^verbatim>\<open>xs.map(f)\<close> for an \<open>f\<close> that may throw: the first exception ends the call.\<close>

fun map_throw :: "('a \<Rightarrow> error + 'b) \<Rightarrow> 'a list \<Rightarrow> error + 'b list" where
  "map_throw f [] = Inr []"
| "map_throw f (x # xs) =
     (case f x of Inl e \<Rightarrow> Inl e
      | Inr y \<Rightarrow> (case map_throw f xs of Inl e \<Rightarrow> Inl e | Inr ys \<Rightarrow> Inr (y # ys)))"

text \<open>\<^verbatim>\<open>scores.reduce((sum, score) => sum + score, 0)\<close>\<close>

definition sum_scores :: "number list \<Rightarrow> number" where
  "sum_scores scores = foldl add (Fin 0) scores"

text \<open>\<^verbatim>\<open>values.reduce((sum, env) => sum + parseTotalSamples(env), 0)\<close>\<close>

fun sum_samples :: "number \<Rightarrow> cell list \<Rightarrow> error + number" where
  "sum_samples acc [] = Inr acc"
| "sum_samples acc (env # envs) =
     (case parseTotalSamples env of Inl e \<Rightarrow> Inl e
      | Inr n \<Rightarrow> sum_samples (add acc n) envs)"

text \<open>
  \<^verbatim>\<open>ModelRow\<close>. The interface declares \<^verbatim>\<open>uid: number\<close>, \<^verbatim>\<open>hotkey: string\<close> and so on, but
  the fields are filled from \<^verbatim>\<open>any\<close> cells unchecked, so at run time each holds a cell.
\<close>

record ModelRow =
  uid :: cell
  hotkey :: cell
  model :: cell
  revision :: cell
  environments :: "(string \<times> cell) list"
  layerPoints :: "(string \<times> cell) list"
  totalPoints :: cell
  eligible :: bool
  firstBlock :: cell
  weight :: cell
  avgEnvScore :: "number option"
  totalSamples :: number

text \<open>
  \<^verbatim>\<open>environments[env] = row[headerMap[env]] || ''\<close> for each environment name in turn.
  Assigning a string to the name \<^verbatim>\<open>__proto__\<close> does nothing: no property is created.
\<close>

definition build_environments :: "string list \<Rightarrow> string list \<Rightarrow> cell list \<Rightarrow> (string \<times> cell) list" where
  "build_environments header envs row =
     fold (\<lambda>env obj.
             if env = ''__proto__'' then obj
             else set_prop obj env (or_else (cell_at row (headerMap header env)) (Str [])))
       envs []"

text \<open>The body of \<^verbatim>\<open>data.data.rows.map((row) => ...)\<close> in \<^verbatim>\<open>fetchData\<close>.\<close>

definition decode_row :: "string list \<Rightarrow> string list \<Rightarrow> cell list \<Rightarrow> error + ModelRow" where
  "decode_row header envs row =
     (let col = (\<lambda>name. cell_at row (headerMap header name));
          environments' = build_environments header envs row
      in case map_throw parseEnvScore (object_values environments') of
           Inl e \<Rightarrow> Inl e
         | Inr parsed \<Rightarrow>
            (let scores = map the (filter (\<lambda>score. score \<noteq> None) parsed);
                 avgEnvScore' =
                   (if length scores > 0 then Some (div_by (sum_scores scores) (length scores))
                    else None)
             in case sum_samples (Fin 0) (object_values environments') of
                  Inl e \<Rightarrow> Inl e
                | Inr totalSamples' \<Rightarrow>
                    Inr \<lparr> uid = col ''UID'',
                          hotkey = col ''Hotkey'',
                          model = col ''Model'',
                          revision = col ''Rev'',
                          environments = environments',
                          layerPoints =
                            [(''L3'', or_else (col ''L3'') (Num (Fin 0))),
                             (''L4'', or_else (col ''L4'') (Num (Fin 0))),
                             (''L5'', or_else (col ''L5'') (Num (Fin 0))),
                             (''L6'', or_else (col ''L6'') (Num (Fin 0))),
                             (''L7'', or_else (col ''L7'') (Num (Fin 0))),
                             (''L8'', or_else (col ''L8'') (Num (Fin 0)))],
                          totalPoints = or_else (col ''Pts'') (Num (Fin 0)),
                          eligible = (col ''Elig'' = Str ''Y''),
                          firstBlock = col ''FirstBlk'',
                          weight = or_else (col ''Wgt'') (Num (Fin 0)),
                          avgEnvScore = avgEnvScore',
                          totalSamples = totalSamples' \<rparr>))"

definition decode :: "string list \<Rightarrow> string list \<Rightarrow> cell list list \<Rightarrow> error + ModelRow list" where
  "decode header envs rows = map_throw (decode_row header envs) rows"

section \<open>The view model\<close>

subsection \<open>Strings of values\<close>

definition lower_char :: "char \<Rightarrow> char" where
  "lower_char c =
     (case map_of (zip ''ABCDEFGHIJKLMNOPQRSTUVWXYZ'' ''abcdefghijklmnopqrstuvwxyz'') c of
        None \<Rightarrow> c
      | Some l \<Rightarrow> l)"

definition toLowerCase :: "string \<Rightarrow> string" where
  "toLowerCase s = map lower_char s"

text \<open>\<^verbatim>\<open>s.includes(q)\<close>: \<open>q\<close> occurs in \<open>s\<close> at some position.\<close>

fun includes_str :: "string \<Rightarrow> string \<Rightarrow> bool" where
  "includes_str [] q = (q = [])"
| "includes_str (c # cs) q = (prefix q (c # cs) \<or> includes_str cs q)"

text \<open>The decimal digits of an integer that is not negative.\<close>

function decimal :: "int \<Rightarrow> string" where
  "decimal n =
     (if n < 10 then [''0123456789'' ! nat n]
      else decimal (n div 10) @ [''0123456789'' ! nat (n mod 10)])"
  by pat_completeness auto
termination
  by (relation "measure nat") auto

declare decimal.simps [simp del]

text \<open>
  What the engine supplies and the model does not define:
  \<^item> the collation of \<^verbatim>\<open>localeCompare\<close> (negative, zero or positive);
  \<^item> the digits \<^verbatim>\<open>Number.prototype.toString\<close> prints for a double that is not an integer
    of magnitude at most \<open>2\<^sup>5\<^sup>3\<close> (the shortest decimal that reads back as the same
    double, in exponent notation from \<open>10\<^sup>2\<^sup>1\<close> on);
  \<^item> \<^verbatim>\<open>Array.prototype.sort\<close> on an array of records. What the language requires of it
    is the predicate \<open>conforming\<close> below.
\<close>

record host =
  localeCompare :: "string \<Rightarrow> string \<Rightarrow> int"
  fractionToString :: "rat \<Rightarrow> string"
  array_sort :: "(ModelRow \<Rightarrow> ModelRow \<Rightarrow> number) \<Rightarrow> ModelRow list \<Rightarrow> ModelRow list"

definition number_toString :: "host \<Rightarrow> number \<Rightarrow> string" where
  "number_toString h n =
     (case n of
        NaN \<Rightarrow> ''NaN''
      | PosInf \<Rightarrow> ''Infinity''
      | NegInf \<Rightarrow> ''-Infinity''
      | Fin r \<Rightarrow>
          if of_int \<lfloor>r\<rfloor> = r \<and> \<bar>r\<bar> \<le> 9007199254740992
          then (if r < 0 then ''-'' else []) @ decimal \<bar>\<lfloor>r\<rfloor>\<bar>
          else fractionToString h r)"

text \<open>\<^verbatim>\<open>String(v)\<close>\<close>

fun to_String :: "host \<Rightarrow> cell \<Rightarrow> string" where
  "to_String h Undefined = ''undefined''"
| "to_String h Null = ''null''"
| "to_String h (Bool b) = (if b then ''true'' else ''false'')"
| "to_String h (Num n) = number_toString h n"
| "to_String h (Str s) = s"

text \<open>\<^verbatim>\<open>v.toString()\<close>: a property read, which throws on \<^verbatim>\<open>undefined\<close> and \<^verbatim>\<open>null\<close>.\<close>

definition toString :: "host \<Rightarrow> cell \<Rightarrow> error + string" where
  "toString h v = (if v = Undefined \<or> v = Null then Inl TypeError else Inr (to_String h v))"

subsection \<open>Filtering\<close>

datatype tab = All | Eligible

text \<open>
  The predicate of the search filter. \<^verbatim>\<open>||\<close> evaluates from the left and stops at the
  first true operand; \<^verbatim>\<open>item.model.toLowerCase()\<close> throws unless the field is a string.
\<close>

definition search_match :: "host \<Rightarrow> string \<Rightarrow> ModelRow \<Rightarrow> error + bool" where
  "search_match h searchQuery item =
     (case model item of
        Str m \<Rightarrow>
          if includes_str (toLowerCase m) (toLowerCase searchQuery) then Inr True
          else (case hotkey item of
                  Str k \<Rightarrow>
                    if includes_str (toLowerCase k) (toLowerCase searchQuery) then Inr True
                    else (case toString h (uid item) of
                            Inl e \<Rightarrow> Inl e
                          | Inr u \<Rightarrow> Inr (includes_str u searchQuery))
                | _ \<Rightarrow> Inl TypeError)
      | _ \<Rightarrow> Inl TypeError)"

text \<open>\<^verbatim>\<open>xs.filter(p)\<close> for a \<open>p\<close> that may throw.\<close>

fun filter_throw :: "('a \<Rightarrow> error + bool) \<Rightarrow> 'a list \<Rightarrow> error + 'a list" where
  "filter_throw p [] = Inr []"
| "filter_throw p (x # xs) =
     (case p x of Inl e \<Rightarrow> Inl e
      | Inr keep \<Rightarrow>
          (case filter_throw p xs of Inl e \<Rightarrow> Inl e
           | Inr ys \<Rightarrow> Inr (if keep then x # ys else ys)))"

definition filterData :: "host \<Rightarrow> string \<Rightarrow> tab \<Rightarrow> ModelRow list \<Rightarrow> error + ModelRow list" where
  "filterData h searchQuery selectedTab data =
     (case (if searchQuery \<noteq> [] then filter_throw (search_match h searchQuery) data
            else Inr data) of
        Inl e \<Rightarrow> Inl e
      | Inr filtered \<Rightarrow>
          Inr (if selectedTab = Eligible then filter eligible filtered else filtered))"

subsection \<open>Sorting\<close>

datatype direction = Asc | Desc

text \<open>
  \<^verbatim>\<open>sortField\<close> is a string naming a key of \<^verbatim>\<open>ModelRow\<close>; the table headers select
  \<^verbatim>\<open>uid\<close>, \<^verbatim>\<open>totalPoints\<close>, \<^verbatim>\<open>avgEnvScore\<close>, \<^verbatim>\<open>totalSamples\<close> and \<^verbatim>\<open>weight\<close>. The model
  covers every key that holds a scalar (not the two that hold objects).
\<close>

datatype sortField =
  F_uid | F_hotkey | F_model | F_revision | F_totalPoints | F_eligible
  | F_firstBlock | F_weight | F_avgEnvScore | F_totalSamples

text \<open>\<^verbatim>\<open>a[sortField]\<close>\<close>

fun field_value :: "sortField \<Rightarrow> ModelRow \<Rightarrow> cell" where
  "field_value F_uid a = uid a"
| "field_value F_hotkey a = hotkey a"
| "field_value F_model a = model a"
| "field_value F_revision a = revision a"
| "field_value F_totalPoints a = totalPoints a"
| "field_value F_eligible a = Bool (eligible a)"
| "field_value F_firstBlock a = firstBlock a"
| "field_value F_weight a = weight a"
| "field_value F_avgEnvScore a = (case avgEnvScore a of None \<Rightarrow> Null | Some v \<Rightarrow> Num v)"
| "field_value F_totalSamples a = Num (totalSamples a)"

text \<open>The two rewrites of a value before the comparison: lower case, then \<open>0\<close> for nothing.\<close>

definition prepare :: "cell \<Rightarrow> cell" where
  "prepare v =
     (let v1 = (case v of Str s \<Rightarrow> Str (toLowerCase s) | _ \<Rightarrow> v)
      in if v1 = Undefined \<or> v1 = Null then Num (Fin 0) else v1)"

text \<open>The comparison function handed to \<^verbatim>\<open>sort\<close>; its result is a number.\<close>

definition compare :: "host \<Rightarrow> sortField \<Rightarrow> direction \<Rightarrow> ModelRow \<Rightarrow> ModelRow \<Rightarrow> number" where
  "compare h sf sd a b =
     (if sf = F_avgEnvScore then
        (let aScore = (case avgEnvScore a of Some v \<Rightarrow> v | None \<Rightarrow> NegInf);
             bScore = (case avgEnvScore b of Some v \<Rightarrow> v | None \<Rightarrow> NegInf)
         in if sd = Asc then sub aScore bScore else sub bScore aScore)
      else
        (let aVal = prepare (field_value sf a); bVal = prepare (field_value sf b)
         in case (aVal, bVal) of
              (Num x, Num y) \<Rightarrow> (if sd = Asc then sub x y else sub y x)
            | _ \<Rightarrow>
              (if sd = Asc
               then Fin (of_int (localeCompare h (to_String h aVal) (to_String h bVal)))
               else Fin (of_int (localeCompare h (to_String h bVal) (to_String h aVal))))))"

text \<open>\<^verbatim>\<open>[...data].sort(comparefn)\<close>: the engine's sort on a copy of the array.\<close>

definition sortData :: "host \<Rightarrow> sortField \<Rightarrow> direction \<Rightarrow> ModelRow list \<Rightarrow> ModelRow list" where
  "sortData h sf sd data = array_sort h (compare h sf sd) data"

section \<open>The refresh cycle\<close>

text \<open>
  The fields of the payload that \<^verbatim>\<open>fetchData\<close> reads (\<^verbatim>\<open>data.data.header\<close> and so on),
  and the block number the page shows from \<^verbatim>\<open>weightsData\<close>.
\<close>

record WeightsData =
  block :: nat
  data_header :: "string list"
  data_rows :: "cell list list"
  data_environments :: "string list"

text \<open>What the two awaited calls give: \<^verbatim>\<open>fetch\<close> rejects, \<^verbatim>\<open>response.json()\<close> rejects, or a payload.\<close>

datatype response = NetworkError | MalformedJson | Json WeightsData

text \<open>The component state that \<^verbatim>\<open>fetchData\<close> writes.\<close>

record dashboard =
  weightsData :: "WeightsData option"
  models :: "ModelRow list"
  lastUpdate :: nat
  isLoading :: bool

text \<open>
  \<^verbatim>\<open>fetchData\<close>, one cycle: \<open>now\<close> is the clock read by \<^verbatim>\<open>new Date()\<close>. Every exception
  inside the \<^verbatim>\<open>try\<close> goes to the \<^verbatim>\<open>catch\<close>, which only logs; \<^verbatim>\<open>finally\<close> clears the
  loading flag. State already set before the exception stays set.
\<close>

definition fetchData :: "dashboard \<Rightarrow> response \<Rightarrow> nat \<Rightarrow> dashboard" where
  "fetchData st resp now =
     (let st1 = st\<lparr>isLoading := True\<rparr>
      in case resp of
           NetworkError \<Rightarrow> st1\<lparr>isLoading := False\<rparr>
         | MalformedJson \<Rightarrow> st1\<lparr>isLoading := False\<rparr>
         | Json d \<Rightarrow>
            (let st2 = st1\<lparr>weightsData := Some d\<rparr>
             in case decode (data_header d) (data_environments d) (data_rows d) of
                  Inl e \<Rightarrow> st2\<lparr>isLoading := False\<rparr>
                | Inr parsedModels \<Rightarrow>
                    st2\<lparr>models := parsedModels, lastUpdate := now, isLoading := False\<rparr>))"

section \<open>Notions of the specification\<close>

text \<open>A cell that the decoder accepts in an environment column: a string, or a falsy value.\<close>

definition string_or_falsy :: "cell \<Rightarrow> bool" where
  "string_or_falsy c = (case c of Str s \<Rightarrow> True | _ \<Rightarrow> \<not> truthy c)"

text \<open>The accuracies of the cells that parse to one, in the order of the cells.\<close>

definition accuracies :: "cell list \<Rightarrow> number list" where
  "accuracies cells =
     List.map_filter (\<lambda>c. case parseEnvScore c of Inr (Some a) \<Rightarrow> Some a | _ \<Rightarrow> None) cells"

text \<open>The sum in floating point: from 0, adding from left to right, each sum rounded.\<close>

definition float_sum :: "number list \<Rightarrow> number" where
  "float_sum xs = foldl add (Fin 0) xs"

text \<open>A rational that is a double: rounding leaves it as it is.\<close>

definition representable :: "rat \<Rightarrow> bool" where
  "representable x = (to_double x = Fin x)"

definition is_double :: "number \<Rightarrow> bool" where
  "is_double v = (case v of Fin x \<Rightarrow> representable x | _ \<Rightarrow> True)"

text \<open>Adding the rationals to \<open>a\<close> one after the other, no sum is rounded.\<close>

fun sums_exact :: "rat \<Rightarrow> rat list \<Rightarrow> bool" where
  "sums_exact a [] = True"
| "sums_exact a (q # qs) = (representable (a + q) \<and> sums_exact (a + q) qs)"

text \<open>
  The sample count of a cell as the specification words it: 0 for an empty or missing
  cell, 0 for fewer than three segments, 0 for a third segment that is not numeric, and
  otherwise the number the third segment parses to.
\<close>

definition sample_count :: "cell \<Rightarrow> number" where
  "sample_count c =
     (case c of
        Str s \<Rightarrow>
          (if s = [] then Fin 0
           else let parts = split (CHR ''/'') s
                in if length parts < 3 then Fin 0
                   else (case parseInt (parts ! 2) of NaN \<Rightarrow> Fin 0 | n \<Rightarrow> n))
      | _ \<Rightarrow> Fin 0)"

text \<open>A number that is zero or more: not negative and not \<^verbatim>\<open>NaN\<close>.\<close>

definition nonneg :: "number \<Rightarrow> bool" where
  "nonneg v = (case v of PosInf \<Rightarrow> True | Fin r \<Rightarrow> 0 \<le> r | _ \<Rightarrow> False)"

text \<open>
  A record as the interface \<^verbatim>\<open>ModelRow\<close> declares it, as far as the search reads it:
  \<^verbatim>\<open>model\<close> and \<^verbatim>\<open>hotkey\<close> are strings and \<^verbatim>\<open>uid\<close> is a number.
\<close>

definition is_string :: "cell \<Rightarrow> bool" where
  "is_string c = (case c of Str s \<Rightarrow> True | _ \<Rightarrow> False)"

definition is_number :: "cell \<Rightarrow> bool" where
  "is_number c = (case c of Num n \<Rightarrow> True | _ \<Rightarrow> False)"

definition typed_row :: "ModelRow \<Rightarrow> bool" where
  "typed_row r = (is_string (model r) \<and> is_string (hotkey r) \<and> is_number (uid r))"



text \<open>
  \<open>q\<close> is a case-insensitive substring of \<open>s\<close>: some contiguous part of \<open>s\<close> equals
  \<open>q\<close> up to the case of its letters.
\<close>

definition ci_substring :: "string \<Rightarrow> string \<Rightarrow> bool" where
  "ci_substring q s = (\<exists>t. sublist t s \<and> toLowerCase t = toLowerCase q)"

text \<open>
  The search as the specification words it: the query is a case-insensitive substring of
  the model name or of the hotkey, or a substring of the uid written out.
\<close>

definition query_matches :: "host \<Rightarrow> string \<Rightarrow> ModelRow \<Rightarrow> bool" where
  "query_matches h q r =
     (case model r of
        Str m \<Rightarrow>
          (case hotkey r of
             Str k \<Rightarrow>
               (case uid r of
                  Num n \<Rightarrow> ci_substring q m \<or> ci_substring q k \<or> sublist q (number_toString h n)
                | _ \<Rightarrow> False)
           | _ \<Rightarrow> False)
      | _ \<Rightarrow> False)"

subsection \<open>What the language requires of a sort\<close>

text \<open>
  The sort reads the result of the comparison function as negative, positive or zero, a
  \<^verbatim>\<open>NaN\<close> result counting as zero.
\<close>

definition is_zero :: "number \<Rightarrow> bool" where
  "is_zero v = (\<not> negative v \<and> \<not> positive v)"

text \<open>
  A comparison function is consistent on the elements of a list when, so read, "equal"
  is reflexive, symmetric and transitive, and "less" and "greater" are transitive.
\<close>

definition consistent :: "('a \<Rightarrow> 'a \<Rightarrow> number) \<Rightarrow> 'a list \<Rightarrow> bool" where
  "consistent cmp xs =
     (\<forall>a\<in>set xs. \<forall>b\<in>set xs. \<forall>d\<in>set xs.
        is_zero (cmp a a)
        \<and> (is_zero (cmp a b) \<longrightarrow> is_zero (cmp b a))
        \<and> (is_zero (cmp a b) \<and> is_zero (cmp b d) \<longrightarrow> is_zero (cmp a d))
        \<and> (negative (cmp a b) \<and> negative (cmp b d) \<longrightarrow> negative (cmp a d))
        \<and> (positive (cmp a b) \<and> positive (cmp b d) \<longrightarrow> positive (cmp a d)))"

text \<open>
  The stable sort, as an insertion sort: each element, from the last to the first, goes
  before the first element that it does not compare greater than.
\<close>

fun insert_by :: "('a \<Rightarrow> 'a \<Rightarrow> number) \<Rightarrow> 'a \<Rightarrow> 'a list \<Rightarrow> 'a list" where
  "insert_by cmp x [] = [x]"
| "insert_by cmp x (y # ys) =
     (if positive (cmp x y) then y # insert_by cmp x ys else x # y # ys)"

definition insertion_sort :: "('a \<Rightarrow> 'a \<Rightarrow> number) \<Rightarrow> 'a list \<Rightarrow> 'a list" where
  "insertion_sort cmp xs = foldr (insert_by cmp) xs []"

text \<open>
  An engine conforms when, for every comparison function that is consistent on the
  array, its sort returns the stable sort of the array. For a comparison function that
  is not consistent the language leaves the order to the engine, and nothing is required.
\<close>

definition conforming :: "host \<Rightarrow> bool" where
  "conforming h = (\<forall>cmp xs. consistent cmp xs \<longrightarrow> array_sort h cmp xs = insertion_sort cmp xs)"

text \<open>
  The input positions in the order of the stable sort: the positions \<open>0, 1, ...\<close>
  sorted by the records they point to.
\<close>

definition sorted_positions :: "('a \<Rightarrow> 'a \<Rightarrow> number) \<Rightarrow> 'a list \<Rightarrow> nat list" where
  "sorted_positions cmp xs = insertion_sort (\<lambda>i j. cmp (xs ! i) (xs ! j)) [0..<length xs]"

text \<open>The score a record is sorted by: an absent average counts as \<open>-\<infinity>\<close>.\<close>

definition score :: "ModelRow \<Rightarrow> number" where
  "score r = (case avgEnvScore r of Some v \<Rightarrow> v | None \<Rightarrow> NegInf)"

definition as_lowest :: "ModelRow \<Rightarrow> ModelRow" where
  "as_lowest r = r\<lparr>avgEnvScore := Some (score r)\<rparr>"

text \<open>The order of the numbers other than \<^verbatim>\<open>NaN\<close>.\<close>

fun num_less :: "number \<Rightarrow> number \<Rightarrow> bool" where
  "num_less NaN _ = False"
| "num_less _ NaN = False"
| "num_less NegInf NegInf = False"
| "num_less NegInf _ = True"
| "num_less _ NegInf = False"
| "num_less PosInf _ = False"
| "num_less _ PosInf = True"
| "num_less (Fin a) (Fin b) = (a < b)"

section \<open>An engine\<close>

text \<open>
  The sort of the engine V8 (Node, Chrome) on an array of fewer than 64 elements: it
  takes the longest run at the start that is ascending, or strictly descending and then
  reversed, and inserts each later element into the sorted part at the place a binary
  search finds. (Longer arrays are cut into such runs, which are then merged; that part
  is not modelled.) A \<^verbatim>\<open>NaN\<close> from the comparison function counts as zero.
\<close>

function bsearch :: "('a \<Rightarrow> 'a \<Rightarrow> number) \<Rightarrow> 'a \<Rightarrow> 'a list \<Rightarrow> nat \<Rightarrow> nat \<Rightarrow> nat" where
  "bsearch cmp pivot arr left right =
     (if left < right then
        (let mid = left + (right - left) div 2
         in if negative (cmp pivot (arr ! mid)) then bsearch cmp pivot arr left mid
            else bsearch cmp pivot arr (mid + 1) right)
      else left)"
  by pat_completeness auto
termination
  by (relation "measure (\<lambda>(cmp, pivot, arr, left, right). right - left)") auto

declare bsearch.simps [simp del]

definition binary_insert :: "('a \<Rightarrow> 'a \<Rightarrow> number) \<Rightarrow> 'a list \<Rightarrow> 'a \<Rightarrow> 'a list" where
  "binary_insert cmp arr pivot =
     (let k = bsearch cmp pivot arr 0 (length arr) in take k arr @ pivot # drop k arr)"

text \<open>The rest of the first run after its second element, and what follows the run.\<close>

fun run_rest :: "('a \<Rightarrow> 'a \<Rightarrow> number) \<Rightarrow> bool \<Rightarrow> 'a \<Rightarrow> 'a list \<Rightarrow> 'a list \<times> 'a list" where
  "run_rest cmp descending previous [] = ([], [])"
| "run_rest cmp descending previous (x # xs) =
     (if negative (cmp x previous) = descending
      then (let (run, rest) = run_rest cmp descending x xs in (x # run, rest))
      else ([], x # xs))"

definition v8_sort :: "('a \<Rightarrow> 'a \<Rightarrow> number) \<Rightarrow> 'a list \<Rightarrow> 'a list" where
  "v8_sort cmp xs =
     (case xs of
        x0 # x1 # others \<Rightarrow>
          (let descending = negative (cmp x1 x0);
               (run, rest) = run_rest cmp descending x1 others;
               first = x0 # x1 # run
           in foldl (binary_insert cmp) (if descending then rev first else first) rest)
      | _ \<Rightarrow> xs)"

section \<open>Sample data\<close>

text \<open>
  Two hosts for the examples, with strings compared character by character. The first
  sorts by the stable insertion sort, so it conforms; the second sorts as V8 does.
\<close>

fun byte_compare :: "string \<Rightarrow> string \<Rightarrow> int" where
  "byte_compare [] [] = 0"
| "byte_compare [] (y # ys) = - 1"
| "byte_compare (x # xs) [] = 1"
| "byte_compare (x # xs) (y # ys) =
     (if x = y then byte_compare xs ys
      else if (of_char x :: nat) < of_char y then - 1 else 1)"

definition sample_host :: host where
  "sample_host =
     \<lparr>localeCompare = byte_compare, fractionToString = (\<lambda>r. ''?''),
      array_sort = insertion_sort\<rparr>"

definition v8_host :: host where
  "v8_host =
     \<lparr>localeCompare = byte_compare, fractionToString = (\<lambda>r. ''?''), array_sort = v8_sort\<rparr>"

text \<open>A record with the given uid, model, hotkey, eligibility, weight and average.\<close>

definition sample_row :: "int \<Rightarrow> string \<Rightarrow> string \<Rightarrow> bool \<Rightarrow> rat \<Rightarrow> number option \<Rightarrow> ModelRow" where
  "sample_row u m k e w s =
     \<lparr> uid = Num (Fin (of_int u)), hotkey = Str k, model = Str m, revision = Str [],
       environments = [], layerPoints = [], totalPoints = Num (Fin 0), eligible = e,
       firstBlock = Num (Fin 0), weight = Num (Fin w), avgEnvScore = s, totalSamples = Fin 0 \<rparr>"

text \<open>A state of the page after an earlier refresh, and a payload that fails to decode.\<close>

definition sample_state :: dashboard where
  "sample_state =
     \<lparr> weightsData = Some \<lparr> block = 100, data_header = [''UID'', ''SAT''],
                             data_rows = [[Num (Fin 1), Str ''80/x/3'']],
                             data_environments = [''SAT''] \<rparr>,
       models = [sample_row 1 ''alpha'' ''5Fa'' True 1 (Some (Fin 80))],
       lastUpdate = 1000, isLoading = False \<rparr>"

definition bad_payload :: WeightsData where
  "bad_payload =
     \<lparr> block = 101, data_header = [''UID'', ''SAT''],
       data_rows = [[Num (Fin 1), Num (Fin 80)]], data_environments = [''SAT''] \<rparr>"

section \<open>Environment cells\<close>

text \<open>
  C3: the cell \<^verbatim>\<open>"75.5*/whatever/120"\<close> parses to accuracy 75.5 and 120 samples, the
  asterisk being removed before the numeric parse; the cell \<^verbatim>\<open>"10/x"\<close>, of two segments,
  parses to accuracy 10 and 0 samples; the empty cell parses to no accuracy and 0 samples.
\<close>

theorem env_cell_examples:
  "parseEnvScore (Str ''75.5*/whatever/120'') = Inr (Some (Fin 75.5))
   \<and> parseTotalSamples (Str ''75.5*/whatever/120'') = Inr (Fin 120)
   \<and> replace_star ''75.5*'' = ''75.5''
   \<and> parseEnvScore (Str ''10/x'') = Inr (Some (Fin 10))
   \<and> parseTotalSamples (Str ''10/x'') = Inr (Fin 0)
   \<and> parseEnvScore (Str []) = Inr None
   \<and> parseTotalSamples (Str []) = Inr (Fin 0)"
  by code_simp

theorem env_cell_examples_witness:
  "parseEnvScore (Str ''10/x'') = Inr (Some (Fin 10))
   \<and> parseTotalSamples (Str ''10/x'') = Inr (Fin 0)"
  using env_cell_examples by blast

section \<open>Facts about rounding\<close>

lemma to_double_0 [simp]: "to_double 0 = Fin 0"
  by (simp add: to_double_def)

lemma round_half_even_ge: "of_int n \<le> x \<Longrightarrow> n \<le> round_half_even x"
proof -
  assume "of_int n \<le> x"
  then have "n \<le> \<lfloor>x\<rfloor>" by (simp add: le_floor_iff)
  then show ?thesis by (auto simp: round_half_even_def Let_def)
qed

lemma round_half_even_int [simp]: "round_half_even (of_int n) = n"
  by (simp add: round_half_even_def)

lemma ilog2_lower:
  assumes "0 < a"
  shows "2 powi (ilog2 a) \<le> a"
proof -
  obtain p q where pq: "quotient_of a = (p, q)" by (cases "quotient_of a")
  then have a: "a = of_int p / of_int q" and q: "0 < q"
    by (auto dest: quotient_of_div quotient_of_denom_pos)
  with assms have p: "0 < p" by (simp add: zero_less_divide_iff)
  let ?d = "bitlen p - bitlen q"
  show ?thesis
  proof (cases "2 powi ?d \<le> a")
    case True
    then show ?thesis by (simp add: ilog2_def pq)
  next
    case False
    have bp: "1 \<le> bitlen p" and bq: "1 \<le> bitlen q"
      using p q by (simp_all add: bitlen_alt_def)
    have "(2::int) ^ nat (bitlen p - 1) \<le> p" using bitlen_bounds [OF p] by simp
    then have "(of_int ((2::int) ^ nat (bitlen p - 1)) :: rat) \<le> of_int p"
      by (simp only: of_int_le_iff)
    then have 1: "(2::rat) powi (bitlen p - 1) \<le> of_int p"
      using bp by (simp add: power_int_def)
    have "q < 2 ^ nat (bitlen q)" using bitlen_bounds [OF q] by simp
    then have "(of_int q :: rat) < of_int ((2::int) ^ nat (bitlen q))"
      by (simp only: of_int_less_iff)
    then have 2: "(of_int q :: rat) < 2 powi (bitlen q)"
      using bq by (simp add: power_int_def)
    have "(2::rat) powi (?d - 1) = 2 powi (bitlen p - 1) / 2 powi (bitlen q)"
      by (simp add: power_int_diff)
    also have "\<dots> \<le> of_int p / 2 powi (bitlen q)"
      using 1 by (simp add: divide_right_mono)
    also have "\<dots> \<le> of_int p / of_int q"
      using 2 p q by (simp add: frac_le)
    finally have "(2::rat) powi (?d - 1) \<le> a" by (simp add: a)
    with False show ?thesis by (simp add: ilog2_def pq)
  qed
qed

lemma round_magnitude_positive:
  assumes "2 powi (- 1074) \<le> a"
  shows "positive (round_magnitude a)"
proof -
  have "(0::rat) < 2 powi (- 1074)" by (rule zero_less_power_int) simp
  with assms have a: "0 < a" by linarith
  let ?q = "max (ilog2 a - 52) (- 1074)"
  have "(2::rat) powi ?q \<le> a"
  proof (cases "ilog2 a - 52 \<le> - 1074")
    case True
    then show ?thesis using assms by (simp add: max_def)
  next
    case False
    have "(2::rat) powi (ilog2 a - 52) \<le> 2 powi (ilog2 a)"
      by (rule power_int_increasing) simp_all
    with ilog2_lower [OF a] False show ?thesis by (simp add: max_def)
  qed
  then have "1 \<le> a / 2 powi ?q" by (simp add: le_divide_eq)
  then have "1 \<le> round_half_even (a / 2 powi ?q)"
    using round_half_even_ge [of 1] by simp
  then have "0 < (of_int (round_half_even (a / 2 powi ?q)) :: rat) * 2 powi ?q"
    by (simp add: zero_less_mult_iff)
  then show ?thesis by (simp add: round_magnitude_def Let_def)
qed

lemma round_magnitude_not_negative:
  assumes "0 \<le> a"
  shows "\<not> negative (round_magnitude a)"
proof -
  let ?q = "max (ilog2 a - 52) (- 1074)"
  have "0 \<le> a / 2 powi ?q" using assms by simp
  then have "0 \<le> round_half_even (a / 2 powi ?q)"
    using round_half_even_ge [of 0] by simp
  then have "0 \<le> (of_int (round_half_even (a / 2 powi ?q)) :: rat) * 2 powi ?q" by simp
  then show ?thesis by (simp add: round_magnitude_def Let_def not_less)
qed

lemma powi_split: "(2::rat) powi q = 2 powi (q + n) * 2 powi (- n)"
  by (simp flip: power_int_add)

lemma round_magnitude_grid:
  assumes "round_magnitude a = Fin x"
  shows "\<exists>k::int. x = of_int k * 2 powi (- 1074)"
proof -
  let ?q = "max (ilog2 a - 52) (- 1074)"
  let ?m = "round_half_even (a / 2 powi ?q)"
  from assms have x: "x = of_int ?m * 2 powi ?q"
    by (simp add: round_magnitude_def Let_def split: if_splits)
  have "0 \<le> ?q + 1074" by simp
  have "(2::rat) powi ?q = 2 powi (?q + 1074) * 2 powi (- 1074)"
    by (rule powi_split)
  also have "(2::rat) powi (?q + 1074) = of_int (2 ^ nat (?q + 1074))"
    using \<open>0 \<le> ?q + 1074\<close> by (simp add: power_int_def)
  finally have "x = of_int (?m * 2 ^ nat (?q + 1074)) * 2 powi (- 1074)"
    by (simp add: x)
  then show ?thesis by blast
qed

lemma overflow_threshold_eq: "overflow_threshold = 2 ^ 1024"
  by (simp add: overflow_threshold_def)

subsection \<open>Numbers that are not rounded\<close>

lemma round_magnitude_exact:
  assumes "a / 2 powi (max (ilog2 a - 52) (- 1074)) = of_int m" and "a < 2 ^ 1024"
  shows "round_magnitude a = Fin a"
proof -
  let ?q = "max (ilog2 a - 52) (- 1074)"
  have "(2::rat) powi ?q \<noteq> 0" by simp
  then have "of_int m * 2 powi ?q = a"
    using assms(1) by (simp add: divide_eq_eq)
  then show ?thesis
    using assms by (simp add: round_magnitude_def Let_def overflow_threshold_eq)
qed

lemma ilog2_upper_bound:
  assumes "0 < a" and "a \<le> 2 powi n"
  shows "ilog2 a \<le> n"
proof (rule ccontr)
  assume "\<not> ilog2 a \<le> n"
  then have "n + 1 \<le> ilog2 a" by simp
  then have "(2::rat) powi (n + 1) \<le> 2 powi (ilog2 a)"
    by (rule power_int_increasing) simp
  also have "\<dots> \<le> a" by (rule ilog2_lower [OF assms(1)])
  finally have "(2::rat) powi (n + 1) \<le> 2 powi n" using assms(2) by simp
  moreover have "(2::rat) powi n < 2 powi (n + 1)"
    by (rule power_int_strict_increasing) simp_all
  ultimately show False by simp
qed

lemma round_magnitude_int:
  assumes "0 < n" and "n \<le> 2 ^ 53"
  shows "round_magnitude (of_int n) = Fin (of_int n)"
proof -
  let ?a = "of_int n :: rat"
  let ?q = "max (ilog2 ?a - 52) (- 1074)"
  have a: "0 < ?a" using assms(1) by simp
  have "?a \<le> of_int (2 ^ 53)" using assms(2) by (simp only: of_int_le_iff)
  then have le: "?a \<le> 2 powi 53" by simp
  then have e: "ilog2 ?a \<le> 53" by (rule ilog2_upper_bound [OF a])
  have lt: "?a < 2 ^ 1024" using le by simp
  show ?thesis
  proof (cases "?q \<le> 0")
    case True
    have "?a / 2 powi ?q = ?a * 2 powi (- ?q)"
      by (simp add: power_int_minus field_simps)
    also have "(2::rat) powi (- ?q) = of_int (2 ^ nat (- ?q))"
      using True by (simp add: power_int_def)
    finally have "?a / 2 powi ?q = of_int (n * 2 ^ nat (- ?q))" by simp
    then show ?thesis using lt by (rule round_magnitude_exact)
  next
    case False
    with e have q: "?q = 1" and "ilog2 ?a = 53" by (auto simp: max_def split: if_splits)
    then have "(2::rat) powi 53 \<le> ?a" using ilog2_lower [OF a] by simp
    with le have "?a = 2 powi 53" by simp
    then have "?a / 2 powi ?q = of_int (2 ^ 52)" unfolding q by simp
    then show ?thesis using lt by (rule round_magnitude_exact)
  qed
qed

lemma representable_int:
  assumes "\<bar>n\<bar> \<le> 2 ^ 53"
  shows "representable (of_int n)"
proof -
  consider "n = 0" | "0 < n" | "n < 0" by linarith
  then show ?thesis
  proof cases
    case 1
    then show ?thesis by (simp add: representable_def)
  next
    case 2
    then show ?thesis
      using assms round_magnitude_int [of n] by (simp add: representable_def to_double_def)
  next
    case 3
    then show ?thesis
      using assms round_magnitude_int [of "- n"] by (simp add: representable_def to_double_def)
  qed
qed

lemma sums_exact_foldl:
  "sums_exact a qs \<Longrightarrow> foldl add (Fin a) (map Fin qs) = Fin (a + sum_list qs)"
  by (induction qs arbitrary: a) (simp_all add: representable_def add.assoc)

lemma sums_exact_ints:
  assumes "\<forall>n\<in>set ns. 0 \<le> n" and "0 \<le> a" and "a + sum_list ns \<le> 2 ^ 53"
  shows "sums_exact (of_int a) (map of_int ns)"
  using assms
proof (induction ns arbitrary: a)
  case Nil
  then show ?case by simp
next
  case (Cons n ns)
  have s: "0 \<le> sum_list ns" using Cons.prems(1) by (simp add: sum_list_nonneg)
  have "\<bar>a + n\<bar> \<le> 2 ^ 53" using Cons.prems s by simp
  then have "representable (of_int (a + n))" by (rule representable_int)
  moreover have "sums_exact (of_int (a + n)) (map of_int ns)"
    using Cons.prems by (intro Cons.IH) (simp_all add: add.assoc)
  ultimately show ?case by simp
qed

subsection \<open>Signs\<close>

lemma nonneg_round_magnitude: "0 \<le> a \<Longrightarrow> nonneg (round_magnitude a)"
  using round_magnitude_not_negative [of a]
  by (cases "round_magnitude a") (auto simp: nonneg_def round_magnitude_def Let_def split: if_splits)

lemma nonneg_to_double: "0 \<le> r \<Longrightarrow> nonneg (to_double r)"
  using nonneg_round_magnitude [of r] by (simp add: to_double_def nonneg_def)

lemma nonneg_add: "nonneg a \<Longrightarrow> nonneg b \<Longrightarrow> nonneg (add a b)"
  by (cases a; cases b) (simp_all add: nonneg_def nonneg_to_double [unfolded nonneg_def])

lemma nonneg_foldl_add: "nonneg a \<Longrightarrow> \<forall>x\<in>set xs. nonneg x \<Longrightarrow> nonneg (foldl add a xs)"
  by (induction xs arbitrary: a) (simp_all add: nonneg_add)

lemma nonneg_float_sum: "\<forall>x\<in>set xs. nonneg x \<Longrightarrow> nonneg (float_sum xs)"
  unfolding float_sum_def by (rule nonneg_foldl_add) (simp_all add: nonneg_def)

text \<open>
  Every double is a multiple of \<open>2\<^sup>-\<^sup>1\<^sup>0\<^sup>7\<^sup>4\<close>, so two different doubles are at least that
  far apart and their difference does not round to zero: the sign of a rounded
  difference is the sign of the difference.
\<close>

lemma double_grid:
  assumes "representable x"
  shows "\<exists>k::int. x = of_int k * 2 powi (- 1074)"
proof -
  consider "x = 0" | "0 < x" | "x < 0" by linarith
  then show ?thesis
  proof cases
    case 1
    then have "x = of_int 0 * 2 powi (- 1074)" by simp
    then show ?thesis by blast
  next
    case 2
    with assms have "round_magnitude x = Fin x" by (simp add: representable_def to_double_def)
    then show ?thesis by (rule round_magnitude_grid)
  next
    case 3
    with assms have "neg (round_magnitude (- x)) = Fin x"
      by (simp add: representable_def to_double_def)
    then have "round_magnitude (- x) = Fin (- x)"
      by (cases "round_magnitude (- x)") simp_all
    then obtain k :: int where "- x = of_int k * 2 powi (- 1074)"
      using round_magnitude_grid by blast
    then have "x = of_int (- k) * 2 powi (- 1074)" by simp
    then show ?thesis by blast
  qed
qed

lemma doubles_apart:
  assumes "representable x" and "representable y" and "y < x"
  shows "2 powi (- 1074) \<le> x - y"
proof -
  obtain k :: int where k: "x = of_int k * 2 powi (- 1074)" using double_grid [OF assms(1)] by blast
  obtain l :: int where l: "y = of_int l * 2 powi (- 1074)" using double_grid [OF assms(2)] by blast
  have p: "(0::rat) < 2 powi (- 1074)" by (rule zero_less_power_int) simp
  have "(of_int l :: rat) * 2 powi (- 1074) < of_int k * 2 powi (- 1074)"
    using assms(3) by (simp only: k l)
  then have "(of_int l :: rat) < of_int k" using p by (simp only: mult_less_cancel_right_pos)
  then have "l + 1 \<le> k" by simp
  then have "(of_int (l + 1) :: rat) \<le> of_int k" by (simp only: of_int_le_iff)
  then have "(of_int (l + 1) :: rat) * 2 powi (- 1074) \<le> of_int k * 2 powi (- 1074)"
    using p by (simp only: mult_le_cancel_right_pos)
  then show ?thesis unfolding k l by (simp only: of_int_add of_int_1 distrib_right) 
qed

lemma to_double_sign:
  assumes "representable x" and "representable y"
  shows "positive (to_double (x - y)) = (y < x)" and "negative (to_double (x - y)) = (x < y)"
proof -
  consider "x = y" | "y < x" | "x < y" by linarith
  then have "positive (to_double (x - y)) = (y < x) \<and> negative (to_double (x - y)) = (x < y)"
  proof cases
    case 1
    then show ?thesis by simp
  next
    case 2
    have p: "positive (round_magnitude (x - y))"
      by (rule round_magnitude_positive [OF doubles_apart [OF assms 2]])
    then have "\<not> negative (round_magnitude (x - y))"
      by (cases "round_magnitude (x - y)") auto
    with p 2 show ?thesis by (simp add: to_double_def)
  next
    case 3
    have p: "positive (round_magnitude (y - x))"
      by (rule round_magnitude_positive [OF doubles_apart [OF assms(2,1) 3]])
    then have "negative (neg (round_magnitude (y - x)))"
       and "\<not> positive (neg (round_magnitude (y - x)))"
      by (cases "round_magnitude (y - x)"; simp)+
    with 3 show ?thesis by (simp add: to_double_def)
  qed
  then show "positive (to_double (x - y)) = (y < x)" and "negative (to_double (x - y)) = (x < y)"
    by simp_all
qed

lemma sub_sign:
  assumes "is_double a" and "is_double b" and "a \<noteq> NaN" and "b \<noteq> NaN"
  shows "positive (sub a b) = num_less b a" and "negative (sub a b) = num_less a b"
proof -
  have "positive (sub a b) = num_less b a \<and> negative (sub a b) = num_less a b"
    using assms
    by (cases a; cases b) (simp_all add: sub_def is_double_def to_double_sign)
  then show "positive (sub a b) = num_less b a" and "negative (sub a b) = num_less a b"
    by simp_all
qed

section \<open>Facts about the decoder\<close>

lemma error_is_TypeError: "(e::error) = TypeError"
  by (cases e) simp

lemma split_not_Nil: "split c s \<noteq> []"
  by (induction s) (auto split: list.splits)

lemma parseEnvScore_throws: "(parseEnvScore c = Inl e) = (\<not> string_or_falsy c)"
  by (cases c; cases e) (auto simp: parseEnvScore_def string_or_falsy_def Let_def)

lemma parseTotalSamples_throws: "(parseTotalSamples c = Inl e) = (\<not> string_or_falsy c)"
  by (cases c; cases e)
    (auto simp: parseTotalSamples_def string_or_falsy_def Let_def split: option.splits)

lemma isl_parseEnvScore: "isl (parseEnvScore c) = (\<not> string_or_falsy c)"
  using parseEnvScore_throws [of c TypeError]
  by (cases "parseEnvScore c") (auto simp: error_is_TypeError)

lemma isl_parseTotalSamples: "isl (parseTotalSamples c) = (\<not> string_or_falsy c)"
  using parseTotalSamples_throws [of c TypeError]
  by (cases "parseTotalSamples c") (auto simp: error_is_TypeError)

lemma map_throw_eq:
  "map_throw f xs =
     (if \<exists>x\<in>set xs. isl (f x) then Inl TypeError else Inr (map (\<lambda>x. projr (f x)) xs))"
  by (induction xs) (auto split: sum.splits simp: error_is_TypeError)

lemma sum_samples_eq:
  "sum_samples acc cs =
     (if \<exists>c\<in>set cs. isl (parseTotalSamples c) then Inl TypeError
      else Inr (foldl add acc (map (\<lambda>c. projr (parseTotalSamples c)) cs)))"
  by (induction cs arbitrary: acc) (auto split: sum.splits simp: error_is_TypeError)

text \<open>The name \<^verbatim>\<open>__proto__\<close> is never stored, as a column or as an environment.\<close>

lemma headerMap_proto: "headerMap header ''__proto__'' = None"
proof -
  have "m ''__proto__'' = None \<Longrightarrow>
        fold (\<lambda>(h, i) m. if h = ''__proto__'' then m else m(h \<mapsto> i)) ps m ''__proto__'' = None"
    for ps :: "(string \<times> nat) list" and m
    by (induction ps arbitrary: m) auto
  then show ?thesis by (simp add: headerMap_def)
qed

lemma set_object_values: "set (object_values obj) = snd ` set obj"
proof -
  have 1: "set (map snd (filter (\<lambda>(k, v). array_index k = None) obj))
             = snd ` {p \<in> set obj. array_index (fst p) = None}"
    by (auto simp: image_iff)
  have 2: "set (map snd (sort_key fst
        (List.map_filter (\<lambda>(k, v). map_option (\<lambda>n. (n, v)) (array_index k)) obj)))
             = snd ` {p \<in> set obj. array_index (fst p) \<noteq> None}"
    by (force simp: map_filter_def image_iff)
  show ?thesis unfolding object_values_def set_append 1 2 by blast
qed

text \<open>
  The environment object holds, for each name but \<^verbatim>\<open>__proto__\<close>, the cell of that column
  or \<open>''\<close>.
\<close>

lemma set_set_prop:
  "\<forall>p\<in>set obj. snd p = g (fst p) \<Longrightarrow> set (set_prop obj k (g k)) = insert (k, g k) (set obj)"
  by (induction obj) (auto split: if_splits)

lemma set_fold_set_prop:
  "\<forall>p\<in>set obj. snd p = g (fst p) \<Longrightarrow>
   set (fold (\<lambda>k obj. if k = s then obj else set_prop obj k (g k)) ks obj)
     = set obj \<union> (\<lambda>k. (k, g k)) ` {k \<in> set ks. k \<noteq> s}"
proof (induction ks arbitrary: obj)
  case Nil
  then show ?case by simp
next
  case (Cons k ks)
  show ?case
  proof (cases "k = s")
    case True
    then show ?thesis using Cons.IH [OF Cons.prems] by auto
  next
    case False
    have s: "set (set_prop obj k (g k)) = insert (k, g k) (set obj)"
      using Cons.prems by (rule set_set_prop)
    have "\<forall>p\<in>set (set_prop obj k (g k)). snd p = g (fst p)"
      using Cons.prems by (simp add: s)
    then show ?thesis
      using Cons.IH [of "set_prop obj k (g k)"] False by (auto simp: s)
  qed
qed

lemma set_build_environments:
  "set (object_values (build_environments header envs row)) =
     (\<lambda>env. or_else (cell_at row (headerMap header env)) (Str []))
       ` {env \<in> set envs. env \<noteq> ''__proto__''}"
proof -
  let ?g = "\<lambda>env. or_else (cell_at row (headerMap header env)) (Str [])"
  have "set (build_environments header envs row)
          = (\<lambda>k. (k, ?g k)) ` {env \<in> set envs. env \<noteq> ''__proto__''}"
    unfolding build_environments_def
    using set_fold_set_prop [of "[]" ?g "''__proto__''" envs] by simp
  then show ?thesis by (simp add: set_object_values image_image)
qed

lemma string_or_falsy_or_else: "string_or_falsy (or_else c (Str [])) = string_or_falsy c"
  by (cases c) (auto simp: or_else_def string_or_falsy_def)

lemma string_or_falsy_proto: "string_or_falsy (cell_at row (headerMap header ''__proto__''))"
  by (simp add: headerMap_proto cell_at_def string_or_falsy_def)

lemma env_cells_ok:
  "(\<forall>c\<in>set (object_values (build_environments header envs row)). string_or_falsy c) =
     (\<forall>env\<in>set envs. string_or_falsy (cell_at row (headerMap header env)))"
  using string_or_falsy_proto [of row header]
  by (auto simp: set_build_environments string_or_falsy_or_else)

lemma decode_row_Inr:
  "(\<exists>r. decode_row header envs row = Inr r) =
     (\<forall>env\<in>set envs. string_or_falsy (cell_at row (headerMap header env)))"
  unfolding env_cells_ok [symmetric]
  by (auto simp: decode_row_def Let_def map_throw_eq sum_samples_eq
      isl_parseEnvScore isl_parseTotalSamples split: sum.splits if_splits)

lemma isl_decode_row:
  "isl (decode_row header envs row) =
     (\<not> (\<forall>env\<in>set envs. string_or_falsy (cell_at row (headerMap header env))))"
  using decode_row_Inr [of header envs row] by (cases "decode_row header envs row") auto

lemma decode_Inr:
  "(\<exists>ms. decode header envs rows = Inr ms \<and> length ms = length rows) =
     (\<forall>row\<in>set rows. \<forall>env\<in>set envs. string_or_falsy (cell_at row (headerMap header env)))"
  by (auto simp: decode_def map_throw_eq isl_decode_row)

lemma decode_member:
  assumes "decode header envs rows = Inr ms" and "r \<in> set ms"
  shows "\<exists>row\<in>set rows. decode_row header envs row = Inr r"
proof -
  from assms(1) have ok: "\<forall>row\<in>set rows. \<not> isl (decode_row header envs row)"
    and ms: "ms = map (\<lambda>row. projr (decode_row header envs row)) rows"
    by (auto simp: decode_def map_throw_eq split: if_splits)
  from assms(2) ms obtain row where "row \<in> set rows" "r = projr (decode_row header envs row)"
    by auto
  with ok show ?thesis by (auto simp: sum.collapse(2))
qed

subsection \<open>The derived fields of a decoded row\<close>

lemma scores_accuracies:
  "\<forall>c\<in>set cells. \<not> isl (parseEnvScore c) \<Longrightarrow>
   map the (filter (\<lambda>score. score \<noteq> None) (map (\<lambda>c. projr (parseEnvScore c)) cells))
     = accuracies cells"
  by (induction cells) (auto simp: accuracies_def map_filter_def split: sum.splits option.splits)

lemma accuracies_Nil:
  "\<forall>c\<in>set cells. \<not> isl (parseEnvScore c) \<Longrightarrow>
   (accuracies cells = []) = (\<forall>c\<in>set cells. parseEnvScore c = Inr None)"
  by (induction cells) (auto simp: accuracies_def map_filter_def split: sum.splits option.splits)

lemma projr_parseTotalSamples:
  "\<not> isl (parseTotalSamples c) \<Longrightarrow> projr (parseTotalSamples c) = sample_count c"
  by (cases c)
    (auto simp: parseTotalSamples_def sample_count_def Let_def isNaN_def
      split: option.splits if_splits number.splits)

lemma decode_row_fields:
  assumes "decode_row header envs row = Inr r"
  shows "environments r = build_environments header envs row"
    and "\<forall>c\<in>set (object_values (environments r)). \<not> isl (parseEnvScore c)"
    and "avgEnvScore r =
          (if accuracies (object_values (environments r)) = [] then None
           else Some (div_by (float_sum (accuracies (object_values (environments r))))
                  (length (accuracies (object_values (environments r))))))"
    and "totalSamples r = float_sum (map sample_count (object_values (environments r)))"
proof -
  let ?cells = "object_values (build_environments header envs row)"
  from assms obtain parsed total where
    p: "map_throw parseEnvScore ?cells = Inr parsed" and
    t: "sum_samples (Fin 0) ?cells = Inr total" and
    e: "environments r = build_environments header envs row" and
    a: "avgEnvScore r =
          (let scores = map the (filter (\<lambda>score. score \<noteq> None) parsed)
           in if length scores > 0 then Some (div_by (sum_scores scores) (length scores))
              else None)" and
    s: "totalSamples r = total"
    by (auto simp: decode_row_def Let_def split: sum.splits)
  from p have ok1: "\<forall>c\<in>set ?cells. \<not> isl (parseEnvScore c)"
    and parsed: "parsed = map (\<lambda>c. projr (parseEnvScore c)) ?cells"
    by (auto simp: map_throw_eq split: if_splits)
  from t have ok2: "\<forall>c\<in>set ?cells. \<not> isl (parseTotalSamples c)"
    and total: "total = float_sum (map (\<lambda>c. projr (parseTotalSamples c)) ?cells)"
    by (auto simp: sum_samples_eq float_sum_def split: if_splits)
  show "environments r = build_environments header envs row" by (rule e)
  show "\<forall>c\<in>set (object_values (environments r)). \<not> isl (parseEnvScore c)"
    using ok1 e by simp
  have m: "map (\<lambda>c. projr (parseTotalSamples c)) ?cells = map sample_count ?cells"
    using ok2 by (simp add: projr_parseTotalSamples)
  show "totalSamples r = float_sum (map sample_count (object_values (environments r)))"
    by (simp only: s total e m)
  have "map the (filter (\<lambda>score. score \<noteq> None) parsed) = accuracies ?cells"
    unfolding parsed using ok1 by (rule scores_accuracies)
  then show "avgEnvScore r =
          (if accuracies (object_values (environments r)) = [] then None
           else Some (div_by (float_sum (accuracies (object_values (environments r))))
                  (length (accuracies (object_values (environments r))))))"
    using a e by (simp add: Let_def sum_scores_def float_sum_def)
qed

lemma falsy_env_cells:
  assumes "\<forall>env\<in>set envs. \<not> truthy (cell_at row (headerMap header env))"
  shows "set (object_values (build_environments header envs row)) \<subseteq> {Str []}"
  using assms by (auto simp: set_build_environments or_else_def)

lemma float_sum_all_zero: "\<forall>x\<in>set xs. x = Fin 0 \<Longrightarrow> float_sum xs = Fin 0"
  unfolding float_sum_def by (induction xs) auto

lemma decode_row_all_falsy:
  assumes "decode_row header envs row = Inr r"
    and "\<forall>env\<in>set envs. \<not> truthy (cell_at row (headerMap header env))"
  shows "avgEnvScore r = None \<and> totalSamples r = Fin 0"
proof -
  let ?cells = "object_values (environments r)"
  have c: "set ?cells \<subseteq> {Str []}"
    using falsy_env_cells [OF assms(2)] decode_row_fields(1) [OF assms(1)] by simp
  have "\<forall>c\<in>set ?cells. parseEnvScore c = Inr None"
    using c by (auto simp: parseEnvScore_def)
  then have "accuracies ?cells = []"
    using accuracies_Nil [OF decode_row_fields(2) [OF assms(1)]] by simp
  then have a: "avgEnvScore r = None"
    using decode_row_fields(3) [OF assms(1)] by simp
  have "\<forall>c\<in>set ?cells. sample_count c = Fin 0"
    using c by (auto simp: sample_count_def)
  then have "float_sum (map sample_count ?cells) = Fin 0"
    by (intro float_sum_all_zero) auto
  then show ?thesis using a decode_row_fields(4) [OF assms(1)] by simp
qed

section \<open>The decoder and malformed cells\<close>

text \<open>
  C1, as stated, fails: an environment cell that holds a number instead of a string makes
  the row decoding throw. Here the header has the columns UID and SAT, and the one row
  holds the number 80 in the SAT column.
\<close>

theorem decode_throws_on_number_cell:
  "decode [''UID'', ''SAT''] [''SAT''] [[Num (Fin 7), Num (Fin 80)]] = Inl TypeError"
  by code_simp

text \<open>
  C1, amended: for every header, every list of environment names and every array of
  rows, the row decoding completes, with one record per row, exactly when every
  environment cell of every row is a string or a falsy value (missing, \<^verbatim>\<open>null\<close>,
  \<^verbatim>\<open>false\<close>, \<open>0\<close>, \<^verbatim>\<open>NaN\<close>, the empty string); what the other columns hold does not
  matter. When every environment cell is falsy, each record carries the absent average
  and a sample total of 0. (The cell of an environment named \<^verbatim>\<open>__proto__\<close> is never read,
  and the lookup of that name yields the missing cell, which is falsy.)
\<close>

theorem decode_completes:
  "((\<exists>ms. decode header envs rows = Inr ms \<and> length ms = length rows) =
      (\<forall>row\<in>set rows. \<forall>env\<in>set envs. string_or_falsy (cell_at row (headerMap header env))))
   \<and> ((\<forall>row\<in>set rows. \<forall>env\<in>set envs. \<not> truthy (cell_at row (headerMap header env))) \<longrightarrow>
        (\<exists>ms. decode header envs rows = Inr ms
           \<and> (\<forall>r\<in>set ms. avgEnvScore r = None \<and> totalSamples r = Fin 0)))"
proof (intro conjI impI)
  show "(\<exists>ms. decode header envs rows = Inr ms \<and> length ms = length rows) =
      (\<forall>row\<in>set rows. \<forall>env\<in>set envs. string_or_falsy (cell_at row (headerMap header env)))"
    by (rule decode_Inr)
next
  assume f: "\<forall>row\<in>set rows. \<forall>env\<in>set envs. \<not> truthy (cell_at row (headerMap header env))"
  have "\<not> truthy c \<Longrightarrow> string_or_falsy c" for c
    by (cases c) (auto simp: string_or_falsy_def)
  with f have "\<forall>row\<in>set rows. \<forall>env\<in>set envs.
      string_or_falsy (cell_at row (headerMap header env))"
    by blast
  then obtain ms where ms: "decode header envs rows = Inr ms"
    using decode_Inr [of header envs rows] by blast
  have "avgEnvScore r = None \<and> totalSamples r = Fin 0" if "r \<in> set ms" for r
  proof -
    from decode_member [OF ms that] obtain row where
      "row \<in> set rows" "decode_row header envs row = Inr r" by blast
    with f show ?thesis using decode_row_all_falsy by blast
  qed
  with ms show "\<exists>ms. decode header envs rows = Inr ms
           \<and> (\<forall>r\<in>set ms. avgEnvScore r = None \<and> totalSamples r = Fin 0)" by blast
qed

theorem decode_completes_witness:
  "(\<exists>ms. decode [''UID'', ''SAT'', ''ABD''] [''SAT'', ''ABD''] [[Num (Fin 7), Str ''80/x/3'']]
           = Inr ms \<and> length ms = 1)
   \<and> map_sum id (map (\<lambda>r. (avgEnvScore r, totalSamples r)))
        (decode [''UID'', ''SAT''] [''SAT'', ''ABD''] [[Num (Fin 7), Null]]) = Inr [(None, Fin 0)]"
proof -
  have 1: "\<forall>row\<in>set [[Num (Fin 7), Str ''80/x/3'']]. \<forall>env\<in>set [''SAT'', ''ABD''].
          string_or_falsy (cell_at row (headerMap [''UID'', ''SAT'', ''ABD''] env))"
    by code_simp
  have 2: "\<forall>row\<in>set [[Num (Fin 7), Null]]. \<forall>env\<in>set [''SAT'', ''ABD''].
          \<not> truthy (cell_at row (headerMap [''UID'', ''SAT''] env))"
    by code_simp
  have 3: "\<forall>row\<in>set [[Num (Fin 7), Null]]. \<forall>env\<in>set [''SAT'', ''ABD''].
          string_or_falsy (cell_at row (headerMap [''UID'', ''SAT''] env))"
    by code_simp
  from 1 have a: "\<exists>ms. decode [''UID'', ''SAT'', ''ABD''] [''SAT'', ''ABD'']
      [[Num (Fin 7), Str ''80/x/3'']] = Inr ms \<and> length ms = 1"
    using decode_completes [of "[''UID'', ''SAT'', ''ABD'']" "[''SAT'', ''ABD'']"
        "[[Num (Fin 7), Str ''80/x/3'']]"]
    by simp
  from 3 obtain ms where ms: "decode [''UID'', ''SAT''] [''SAT'', ''ABD''] [[Num (Fin 7), Null]]
      = Inr ms" and len: "length ms = 1"
    using decode_completes [of "[''UID'', ''SAT'']" "[''SAT'', ''ABD'']" "[[Num (Fin 7), Null]]"]
    by auto
  from 2 ms have all: "\<forall>r\<in>set ms. avgEnvScore r = None \<and> totalSamples r = Fin 0"
    using decode_completes [of "[''UID'', ''SAT'']" "[''SAT'', ''ABD'']" "[[Num (Fin 7), Null]]"]
    by auto
  from len obtain r where "ms = [r]"
    by (cases ms) auto
  with all ms a show ?thesis by simp
qed

text \<open>
  A column and an environment both named \<^verbatim>\<open>__proto__\<close>: the cell is never read, so
  the number it holds does no harm.
\<close>

lemma decode_skips_proto:
  "map_sum id (map (\<lambda>r. (environments r, avgEnvScore r, totalSamples r)))
     (decode [''__proto__''] [''__proto__''] [[Num (Fin 80)]]) = Inr [([], None, Fin 0)]"
  by code_simp

section \<open>The derived metrics\<close>

text \<open>
  C4, as stated, fails: the sum of the accuracies is rounded to a double after every
  addition. A record with the accuracies \<open>10\<^sup>1\<^sup>6\<close>, 1 and 1 has the mean
  3333333333333334, which is a double; the sum stays at \<open>10\<^sup>1\<^sup>6\<close> through both
  additions of 1, and the average of the record is 3333333333333333.5.
\<close>

theorem avgEnvScore_not_exact_mean:
  "map_sum id (map (accuracies \<circ> object_values \<circ> environments))
        (decode [''A'', ''B'', ''C''] [''A'', ''B'', ''C'']
           [[Str ''10000000000000000/x/1'', Str ''1/y/1'', Str ''1/z/1'']])
      = Inr [[Fin 10000000000000000, Fin 1, Fin 1]]
   \<and> map_sum id (map avgEnvScore)
        (decode [''A'', ''B'', ''C''] [''A'', ''B'', ''C'']
           [[Str ''10000000000000000/x/1'', Str ''1/y/1'', Str ''1/z/1'']])
      = Inr [Some (Fin (6666666666666667 / 2))]
   \<and> to_double ((10000000000000000 + 1 + 1) / 3) = Fin 3333333333333334"
  by code_simp

text \<open>
  C4, amended: for every decoded record, \<^verbatim>\<open>avgEnvScore\<close> is absent exactly when none of its
  environment cells parses to an accuracy; otherwise it is the mean of the parsed
  accuracies as double arithmetic computes it: the accuracies are added from left to
  right, starting from 0, each sum rounded to a double, and the last sum is divided by
  their count and rounded. It is the arithmetic mean itself when no addition needs
  rounding and the mean is a double.
\<close>

theorem avgEnvScore_float_mean:
  assumes "decode header envs rows = Inr ms" and "r \<in> set ms"
  shows "((avgEnvScore r = None) =
            (\<forall>c\<in>set (object_values (environments r)). parseEnvScore c = Inr None))
       \<and> (accuracies (object_values (environments r)) \<noteq> [] \<longrightarrow>
            avgEnvScore r =
              Some (div_by (float_sum (accuracies (object_values (environments r))))
                      (length (accuracies (object_values (environments r))))))
       \<and> (\<forall>qs. qs \<noteq> [] \<and> accuracies (object_values (environments r)) = map Fin qs
               \<and> sums_exact 0 qs \<and> representable (sum_list qs / of_nat (length qs)) \<longrightarrow>
            avgEnvScore r = Some (Fin (sum_list qs / of_nat (length qs))))"
proof -
  let ?acc = "accuracies (object_values (environments r))"
  from decode_member [OF assms] obtain row where d: "decode_row header envs row = Inr r"
    by blast
  note ok = decode_row_fields(2) [OF d] and avg = decode_row_fields(3) [OF d]
  have 1: "(avgEnvScore r = None) =
            (\<forall>c\<in>set (object_values (environments r)). parseEnvScore c = Inr None)"
    using avg accuracies_Nil [OF ok] by (simp split: if_splits)
  have 2: "avgEnvScore r = Some (div_by (float_sum ?acc) (length ?acc))" if "?acc \<noteq> []"
    using avg that by simp
  have 3: "avgEnvScore r = Some (Fin (sum_list qs / of_nat (length qs)))"
    if "qs \<noteq> []" "?acc = map Fin qs" "sums_exact 0 qs"
      "representable (sum_list qs / of_nat (length qs))" for qs
  proof -
    have "float_sum ?acc = Fin (sum_list qs)"
      using sums_exact_foldl [OF that(3)] that(2) by (simp add: float_sum_def)
    then have "div_by (float_sum ?acc) (length ?acc) = Fin (sum_list qs / of_nat (length qs))"
      using that(1,2,4) by (simp add: representable_def)
    then show ?thesis using 2 that(1,2) by simp
  qed
  from 1 2 3 show ?thesis by blast
qed

theorem avgEnvScore_float_mean_witness:
  "\<not> isl (decode [''SAT'', ''ABD'', ''DED''] [''SAT'', ''ABD'', ''DED''] [[Str ''80/x/3'', Str ''70*/y/5'']])
   \<and> map avgEnvScore (projr (decode [''SAT'', ''ABD'', ''DED''] [''SAT'', ''ABD'', ''DED'']
         [[Str ''80/x/3'', Str ''70*/y/5'']])) = [Some (Fin 75)]"
proof -
  let ?d = "decode [''SAT'', ''ABD'', ''DED''] [''SAT'', ''ABD'', ''DED''] [[Str ''80/x/3'', Str ''70*/y/5'']]"
  have n: "\<not> isl ?d" by code_simp
  then have d: "?d = Inr (projr ?d)" by simp
  have l: "length (projr ?d) = 1" by code_simp
  then obtain r where r: "projr ?d = [r]" by (cases "projr ?d") auto
  then have m: "r \<in> set (projr ?d)" by simp
  have "accuracies (object_values (environments (hd (projr ?d)))) = map Fin [80, 70]"
    by code_simp
  then have a: "accuracies (object_values (environments r)) = map Fin [80, 70]"
    using r by simp
  have s: "sums_exact 0 [80, 70]" by code_simp
  have q: "representable (sum_list [80, 70] / of_nat (length [80::rat, 70]))" by code_simp
  have "[80::rat, 70] \<noteq> []" by simp
  with a s q have "avgEnvScore r = Some (Fin (sum_list [80, 70] / of_nat (length [80::rat, 70])))"
    using avgEnvScore_float_mean [OF d m] by blast
  then have "avgEnvScore r = Some (Fin 75)" by simp
  with n r show ?thesis by simp
qed

text \<open>
  C5, as stated, fails: \<^verbatim>\<open>parseInt\<close> reads a sign, so a sample segment \<^verbatim>\<open>-5\<close> counts as
  \<open>-5\<close> and the total of the record is negative.
\<close>

theorem totalSamples_negative:
  "map_sum id (map totalSamples) (decode [''SAT''] [''SAT''] [[Str ''50/x/-5'']])
     = Inr [Fin (- 5)]"
  by code_simp

text \<open>
  C5, amended: for every decoded record, \<^verbatim>\<open>totalSamples\<close> is the sum of the sample counts
  of its environment cells as double arithmetic computes it, added from left to right
  from 0, where a cell that is not a string, has fewer than three segments or has a third
  segment that does not start with an integer counts 0. The total is not negative when no
  cell's count is negative, and it is the sum itself when the counts are integers that
  are not negative and their sum is at most \<open>2\<^sup>5\<^sup>3\<close>.
\<close>

theorem totalSamples_is_sum:
  assumes "decode header envs rows = Inr ms" and "r \<in> set ms"
  shows "totalSamples r = float_sum (map sample_count (object_values (environments r)))
       \<and> (\<forall>c. (\<forall>s. c = Str s \<longrightarrow> length (split (CHR ''/'') s) < 3
                       \<or> parseInt (split (CHR ''/'') s ! 2) = NaN) \<longrightarrow> sample_count c = Fin 0)
       \<and> ((\<forall>c\<in>set (object_values (environments r)). nonneg (sample_count c)) \<longrightarrow>
            nonneg (totalSamples r))
       \<and> (\<forall>ns. map sample_count (object_values (environments r)) = map (\<lambda>n. Fin (of_int n)) ns
               \<and> (\<forall>n\<in>set ns. 0 \<le> n) \<and> sum_list ns \<le> 2 ^ 53 \<longrightarrow>
            totalSamples r = Fin (of_int (sum_list ns)))"
proof -
  let ?counts = "map sample_count (object_values (environments r))"
  from decode_member [OF assms] obtain row where d: "decode_row header envs row = Inr r"
    by blast
  have 1: "totalSamples r = float_sum ?counts"
    by (rule decode_row_fields(4) [OF d])
  have 2: "sample_count c = Fin 0"
    if "\<forall>s. c = Str s \<longrightarrow> length (split (CHR ''/'') s) < 3
                       \<or> parseInt (split (CHR ''/'') s ! 2) = NaN" for c
    using that by (cases c) (auto simp: sample_count_def Let_def)
  have 3: "nonneg (totalSamples r)"
    if "\<forall>c\<in>set (object_values (environments r)). nonneg (sample_count c)"
    unfolding 1 using that by (intro nonneg_float_sum) simp
  have 4: "totalSamples r = Fin (of_int (sum_list ns))"
    if "?counts = map (\<lambda>n. Fin (of_int n)) ns" "\<forall>n\<in>set ns. 0 \<le> n" "sum_list ns \<le> 2 ^ 53"
    for ns
  proof -
    have "sums_exact (rat_of_int 0) (map rat_of_int ns)"
      using that(2,3) by (intro sums_exact_ints) simp_all
    then have "foldl add (Fin 0) (map Fin (map rat_of_int ns))
                 = Fin (0 + sum_list (map rat_of_int ns))"
      using sums_exact_foldl [of 0 "map rat_of_int ns"] by simp
    moreover have "sum_list (map rat_of_int ns) = rat_of_int (sum_list ns)"
      by (induction ns) simp_all
    ultimately show ?thesis
      unfolding 1 that(1) float_sum_def by (simp add: comp_def)
  qed
  from 1 2 3 4 show ?thesis by blast
qed

theorem totalSamples_is_sum_witness:
  "\<not> isl (decode [''SAT'', ''ABD'', ''DED''] [''SAT'', ''ABD'', ''DED''] [[Str ''80/x/3'', Str ''70*/y/5'']])
   \<and> map totalSamples (projr (decode [''SAT'', ''ABD'', ''DED''] [''SAT'', ''ABD'', ''DED'']
         [[Str ''80/x/3'', Str ''70*/y/5'']])) = [Fin 8]
   \<and> sample_count (Str ''10/x'') = Fin 0"
proof -
  let ?d = "decode [''SAT'', ''ABD'', ''DED''] [''SAT'', ''ABD'', ''DED''] [[Str ''80/x/3'', Str ''70*/y/5'']]"
  have n: "\<not> isl ?d" by code_simp
  then have d: "?d = Inr (projr ?d)" by simp
  have l: "length (projr ?d) = 1" by code_simp
  then obtain r where r: "projr ?d = [r]" by (cases "projr ?d") auto
  then have m: "r \<in> set (projr ?d)" by simp
  note t = totalSamples_is_sum [OF d m]
  have "map sample_count (object_values (environments (hd (projr ?d))))
          = map (\<lambda>n. Fin (of_int n)) [3, 5, 0]"
    by code_simp
  then have c: "map sample_count (object_values (environments r))
          = map (\<lambda>n. Fin (of_int n)) [3, 5, 0]"
    using r by simp
  have "(\<forall>n\<in>set [3, 5, 0::int]. 0 \<le> n) \<and> sum_list [3, 5, 0::int] \<le> 2 ^ 53" by simp
  with c t have "totalSamples r = Fin (of_int (sum_list [3, 5, 0]))" by blast
  then have 1: "totalSamples r = Fin 8" by simp
  from c have "\<forall>c\<in>set (object_values (environments r)). nonneg (sample_count c)"
    by (simp add: map_eq_Cons_conv nonneg_def) auto
  with t have 2: "nonneg (totalSamples r)" by blast
  have "\<forall>s. Str ''10/x'' = Str s \<longrightarrow> length (split (CHR ''/'') s) < 3
                       \<or> parseInt (split (CHR ''/'') s ! 2) = NaN"
    by simp
  with t have 3: "sample_count (Str ''10/x'') = Fin 0" by blast
  from n r 1 2 3 show ?thesis by simp
qed

text \<open>
  Beyond \<open>2\<^sup>5\<^sup>3\<close> the additions round: the counts \<open>2\<^sup>5\<^sup>3\<close> and 1 give the total \<open>2\<^sup>5\<^sup>3\<close>.
\<close>

lemma totalSamples_rounds:
  "map_sum id (map totalSamples)
     (decode [''A'', ''B''] [''A'', ''B''] [[Str ''1/x/9007199254740992'', Str ''1/x/1'']])
     = Inr [Fin 9007199254740992]"
  by code_simp

section \<open>Sorting\<close>

lemma set_insert_by [simp]: "set (insert_by c x ys) = insert x (set ys)"
  by (induction ys) auto

lemma length_insert_by [simp]: "length (insert_by c x ys) = Suc (length ys)"
  by (induction ys) auto

lemma distinct_insert_by [simp]: "distinct (insert_by c x ys) = (x \<notin> set ys \<and> distinct ys)"
  by (induction ys) auto

lemma insertion_sort_Cons: "insertion_sort c (x # xs) = insert_by c x (insertion_sort c xs)"
  by (simp add: insertion_sort_def)

lemma insertion_sort_Nil [simp]: "insertion_sort c [] = []"
  by (simp add: insertion_sort_def)

lemma set_insertion_sort [simp]: "set (insertion_sort c xs) = set xs"
  by (induction xs) (simp_all add: insertion_sort_Cons)

lemma length_insertion_sort [simp]: "length (insertion_sort c xs) = length xs"
  by (induction xs) (simp_all add: insertion_sort_Cons)

lemma distinct_insertion_sort [simp]: "distinct (insertion_sort c xs) = distinct xs"
  by (induction xs) (simp_all add: insertion_sort_Cons)

lemma map_insert_by:
  "map f (insert_by (\<lambda>a b. c (f a) (f b)) x ys) = insert_by c (f x) (map f ys)"
  by (induction ys) auto

lemma map_insertion_sort:
  "map f (insertion_sort (\<lambda>a b. c (f a) (f b)) xs) = insertion_sort c (map f xs)"
  by (induction xs) (simp_all add: insertion_sort_Cons map_insert_by)

subsection \<open>Stability of the insertion sort\<close>

text \<open>
  Positions tell apart records that are equal. An insertion moves a record past another
  only when the comparison of the two is positive.
\<close>

lemma insert_by_keeps_order:
  fixes x :: nat
  assumes "\<forall>y\<in>set ys. x < y"
    and "sorted_wrt (\<lambda>p q. q < p \<longrightarrow> positive (c q p)) ys"
  shows "sorted_wrt (\<lambda>p q. q < p \<longrightarrow> positive (c q p)) (insert_by c x ys)"
  using assms by (induction ys) auto

lemma insertion_sort_keeps_order:
  fixes xs :: "nat list"
  assumes "sorted_wrt (<) xs"
  shows "sorted_wrt (\<lambda>p q. q < p \<longrightarrow> positive (c q p)) (insertion_sort c xs)"
  using assms
  by (induction xs) (auto simp: insertion_sort_Cons intro!: insert_by_keeps_order)

lemma sorted_positions_props:
  "map ((!) xs) (sorted_positions c xs) = insertion_sort c xs"
  "distinct (sorted_positions c xs)"
  "set (sorted_positions c xs) = {0..<length xs}"
  "length (sorted_positions c xs) = length xs"
  by (simp_all add: sorted_positions_def map_insertion_sort map_nth)

lemma sorted_positions_stable:
  assumes "i < j" and "j < length xs" and "\<not> positive (c (xs ! i) (xs ! j))"
  shows "\<exists>a b. a < b \<and> b < length xs
           \<and> sorted_positions c xs ! a = i \<and> sorted_positions c xs ! b = j"
proof -
  let ?p = "sorted_positions c xs"
  have s: "sorted_wrt (\<lambda>p q. q < p \<longrightarrow> positive (c (xs ! q) (xs ! p))) ?p"
    unfolding sorted_positions_def by (rule insertion_sort_keeps_order) simp
  have len: "length ?p = length xs" by (simp add: sorted_positions_props)
  from assms have "i \<in> set ?p" "j \<in> set ?p" by (simp_all add: sorted_positions_props)
  then obtain a b where a: "a < length ?p" "?p ! a = i" and b: "b < length ?p" "?p ! b = j"
    by (auto simp: in_set_conv_nth)
  have "a \<noteq> b" using a b assms by auto
  moreover have "\<not> b < a"
  proof
    assume "b < a"
    from sorted_wrt_nth_less [OF s this a(1)]
    have "?p ! a < ?p ! b \<longrightarrow> positive (c (xs ! (?p ! a)) (xs ! (?p ! b)))" .
    with a b assms show False by simp
  qed
  ultimately have "a < b" by simp
  with a b len show ?thesis by auto
qed

subsection \<open>Order under a consistent comparison\<close>

lemma not_negative_and_positive: "\<not> (negative v \<and> positive v)"
  by (cases v) auto

lemma consistent_antisym:
  assumes "consistent c xs" and "a \<in> set xs" and "b \<in> set xs" and "positive (c a b)"
  shows "\<not> positive (c b a)"
proof
  assume "positive (c b a)"
  with assms have "positive (c a a)"
    unfolding consistent_def by blast
  moreover have "is_zero (c a a)" using assms unfolding consistent_def by blast
  ultimately show False by (simp add: is_zero_def)
qed

lemma consistent_antisym_neg:
  assumes "consistent c xs" and "a \<in> set xs" and "b \<in> set xs" and "negative (c a b)"
  shows "\<not> negative (c b a)"
proof
  assume "negative (c b a)"
  with assms have "negative (c a a)"
    unfolding consistent_def by blast
  moreover have "is_zero (c a a)" using assms unfolding consistent_def by blast
  ultimately show False by (simp add: is_zero_def)
qed

lemma consistent_flip:
  assumes "consistent c xs" and "a \<in> set xs" and "b \<in> set xs"
  shows "positive (c a b) = negative (c b a)"
proof
  assume p: "positive (c a b)"
  then have "\<not> positive (c b a)" by (rule consistent_antisym [OF assms])
  moreover have "\<not> is_zero (c b a)"
  proof
    assume "is_zero (c b a)"
    then have "is_zero (c a b)" using assms unfolding consistent_def by blast
    with p show False by (simp add: is_zero_def)
  qed
  ultimately show "negative (c b a)" by (simp add: is_zero_def)
next
  assume n: "negative (c b a)"
  then have "\<not> negative (c a b)" by (rule consistent_antisym_neg [OF assms(1,3,2)])
  moreover have "\<not> is_zero (c a b)"
  proof
    assume "is_zero (c a b)"
    then have "is_zero (c b a)" using assms unfolding consistent_def by blast
    with n show False by (simp add: is_zero_def)
  qed
  ultimately show "positive (c a b)" by (simp add: is_zero_def)
qed

lemma consistent_trans:
  assumes c: "consistent c xs" and a: "a \<in> set xs" and b: "b \<in> set xs" and d: "d \<in> set xs"
    and ab: "\<not> positive (c a b)" and bd: "\<not> positive (c b d)"
  shows "\<not> positive (c a d)"
proof
  assume ad: "positive (c a d)"
  then have da: "negative (c d a)" using consistent_flip [OF c a d] by simp
  have zz: "is_zero (c x y) \<Longrightarrow> is_zero (c y z) \<Longrightarrow> is_zero (c x z)"
    if "x \<in> set xs" "y \<in> set xs" "z \<in> set xs" for x y z
    using c that unfolding consistent_def by blast
  have nn: "negative (c x y) \<Longrightarrow> negative (c y z) \<Longrightarrow> negative (c x z)"
    if "x \<in> set xs" "y \<in> set xs" "z \<in> set xs" for x y z
    using c that unfolding consistent_def by blast
  have sym: "is_zero (c x y) \<Longrightarrow> is_zero (c y x)" if "x \<in> set xs" "y \<in> set xs" for x y
    using c that unfolding consistent_def by blast
  from ab have ab': "negative (c a b) \<or> is_zero (c a b)" by (auto simp: is_zero_def)
  from bd have bd': "negative (c b d) \<or> is_zero (c b d)" by (auto simp: is_zero_def)
  from ad have nz: "\<not> is_zero (c a d)" and nneg: "\<not> negative (c a d)"
    using not_negative_and_positive [of "c a d"] by (auto simp: is_zero_def)
  show False
  proof (cases "negative (c a b)")
    case True
    show False
    proof (cases "negative (c b d)")
      case True
      with \<open>negative (c a b)\<close> have "negative (c a d)" using nn [OF a b d] by simp
      with nneg show False by simp
    next
      case False
      with bd' have z: "is_zero (c b d)" by simp
      from da True have "negative (c d b)" using nn [OF d a b] by simp
      moreover have "is_zero (c d b)" using sym [OF b d] z by simp
      ultimately show False by (simp add: is_zero_def)
    qed
  next
    case False
    with ab' have z: "is_zero (c a b)" by simp
    show False
    proof (cases "negative (c b d)")
      case True
      with da have "negative (c b a)" using nn [OF b d a] by simp
      moreover have "is_zero (c b a)" using sym [OF a b] z by simp
      ultimately show False by (simp add: is_zero_def)
    next
      case False
      with bd' have "is_zero (c b d)" by simp
      with z have "is_zero (c a d)" using zz [OF a b d] by simp
      with nz show False by simp
    qed
  qed
qed

lemma insert_by_sorted:
  assumes "consistent c zs" and "x \<in> set zs" and "set ys \<subseteq> set zs"
    and "sorted_wrt (\<lambda>a b. \<not> positive (c a b)) ys"
  shows "sorted_wrt (\<lambda>a b. \<not> positive (c a b)) (insert_by c x ys)"
  using assms(2-)
proof (induction ys)
  case Nil
  then show ?case by simp
next
  case (Cons y ys)
  show ?case
  proof (cases "positive (c x y)")
    case True
    then have "\<not> positive (c y x)"
      using consistent_antisym [OF assms(1), of x y] Cons.prems by simp
    with True Cons show ?thesis by auto
  next
    case False
    have "\<not> positive (c x z)" if "z \<in> set ys" for z
    proof -
      from that Cons.prems have "\<not> positive (c y z)" "z \<in> set zs" "y \<in> set zs" by auto
      with False Cons.prems(1) show ?thesis
        using consistent_trans [OF assms(1), of x y z] by blast
    qed
    with False Cons.prems show ?thesis by auto
  qed
qed

lemma insertion_sort_sorted_sub:
  assumes "consistent c zs" and "set xs \<subseteq> set zs"
  shows "sorted_wrt (\<lambda>a b. \<not> positive (c a b)) (insertion_sort c xs)"
  using assms(2)
proof (induction xs)
  case Nil
  then show ?case by simp
next
  case (Cons x xs)
  then have s: "sorted_wrt (\<lambda>a b. \<not> positive (c a b)) (insertion_sort c xs)" by simp
  have m: "x \<in> set zs" "set (insertion_sort c xs) \<subseteq> set zs" using Cons.prems by simp_all
  show ?case
    unfolding insertion_sort_Cons by (rule insert_by_sorted [OF assms(1) m s])
qed

lemma insertion_sort_sorted:
  "consistent c xs \<Longrightarrow> sorted_wrt (\<lambda>a b. \<not> positive (c a b)) (insertion_sort c xs)"
  using insertion_sort_sorted_sub [of c xs xs] by simp

lemma sortData_conforming:
  "conforming h \<Longrightarrow> consistent (compare h sf sd) data \<Longrightarrow>
   sortData h sf sd data = insertion_sort (compare h sf sd) data"
  by (simp add: conforming_def sortData_def)

lemma conforming_sample_host: "conforming sample_host"
  by (simp add: conforming_def sample_host_def)

subsection \<open>The sort of the table\<close>

text \<open>
  C7, as stated, fails: a comparison against a \<^verbatim>\<open>NaN\<close> score yields \<^verbatim>\<open>NaN\<close>, which the
  sort reads as "equal", so the comparison function is not consistent and the order is
  the engine's choice. Four rows decode to the averages absent, 1, \<^verbatim>\<open>NaN\<close> (the mean of
  \<open>\<infinity>\<close> and \<open>-\<infinity>\<close>) and 1. The records 3 and 4 compare equal, yet sorting by the average,
  descending, as V8 does returns record 4 before record 3.
\<close>

theorem sortData_unstable_on_NaN:
  "map avgEnvScore (projr (decode [''UID'', ''A'', ''B''] [''A'', ''B'']
       [[Num (Fin 1), Str [], Str []], [Num (Fin 2), Str ''1/x/1'', Str []],
        [Num (Fin 3), Str ''Infinity/x/1'', Str ''-Infinity/x/1''],
        [Num (Fin 4), Str ''1/x/1'', Str []]]))
     = [None, Some (Fin 1), Some NaN, Some (Fin 1)]
   \<and> is_zero (compare v8_host F_avgEnvScore Desc
       (projr (decode [''UID'', ''A'', ''B''] [''A'', ''B'']
          [[Num (Fin 1), Str [], Str []], [Num (Fin 2), Str ''1/x/1'', Str []],
           [Num (Fin 3), Str ''Infinity/x/1'', Str ''-Infinity/x/1''],
           [Num (Fin 4), Str ''1/x/1'', Str []]]) ! 2)
       (projr (decode [''UID'', ''A'', ''B''] [''A'', ''B'']
          [[Num (Fin 1), Str [], Str []], [Num (Fin 2), Str ''1/x/1'', Str []],
           [Num (Fin 3), Str ''Infinity/x/1'', Str ''-Infinity/x/1''],
           [Num (Fin 4), Str ''1/x/1'', Str []]]) ! 3))
   \<and> map uid (sortData v8_host F_avgEnvScore Desc
       (projr (decode [''UID'', ''A'', ''B''] [''A'', ''B'']
          [[Num (Fin 1), Str [], Str []], [Num (Fin 2), Str ''1/x/1'', Str []],
           [Num (Fin 3), Str ''Infinity/x/1'', Str ''-Infinity/x/1''],
           [Num (Fin 4), Str ''1/x/1'', Str []]])))
     = [Num (Fin 2), Num (Fin 4), Num (Fin 1), Num (Fin 3)]"
  by code_simp

text \<open>
  C7, amended: on an engine that conforms to the language, for every sort field, both
  directions and every list of records on which the comparison of the selected field is
  consistent, \<^verbatim>\<open>sortData\<close> is a stable sort. The output is the input read at a permutation
  of its positions; it is in comparison order (no record compares greater than a later
  one); and of any two input positions \<open>i < j\<close> whose records compare equal (or in order:
  the comparison of the earlier with the later is not positive), \<open>i\<close> comes out before
  \<open>j\<close>.
\<close>

theorem sortData_stable:
  assumes "conforming h" and "consistent (compare h sf sd) data"
  shows "sortData h sf sd data = map ((!) data) (sorted_positions (compare h sf sd) data)
   \<and> distinct (sorted_positions (compare h sf sd) data)
   \<and> set (sorted_positions (compare h sf sd) data) = {0..<length data}
   \<and> sorted_wrt (\<lambda>a b. \<not> positive (compare h sf sd a b)) (sortData h sf sd data)
   \<and> (\<forall>i j. i < j \<and> j < length data
          \<and> \<not> positive (compare h sf sd (data ! i) (data ! j)) \<longrightarrow>
          (\<exists>a b. a < b \<and> b < length data
             \<and> sorted_positions (compare h sf sd) data ! a = i
             \<and> sorted_positions (compare h sf sd) data ! b = j))"
proof -
  note s = sortData_conforming [OF assms]
  have "sorted_wrt (\<lambda>a b. \<not> positive (compare h sf sd a b)) (sortData h sf sd data)"
    unfolding s by (rule insertion_sort_sorted [OF assms(2)])
  moreover have "\<forall>i j. i < j \<and> j < length data
          \<and> \<not> positive (compare h sf sd (data ! i) (data ! j)) \<longrightarrow>
          (\<exists>a b. a < b \<and> b < length data
             \<and> sorted_positions (compare h sf sd) data ! a = i
             \<and> sorted_positions (compare h sf sd) data ! b = j)"
    using sorted_positions_stable [of _ _ data "compare h sf sd"] by blast
  ultimately show ?thesis
    by (simp add: s sorted_positions_props)
qed

theorem sortData_stable_witness:
  "consistent (compare sample_host F_weight Desc)
     [sample_row 1 ''m1'' ''k1'' True 1 None, sample_row 2 ''m2'' ''k2'' True 2 None,
      sample_row 3 ''m3'' ''k3'' True 1 None]
   \<and> \<not> positive (compare sample_host F_weight Desc
        ([sample_row 1 ''m1'' ''k1'' True 1 None, sample_row 2 ''m2'' ''k2'' True 2 None,
          sample_row 3 ''m3'' ''k3'' True 1 None] ! 0)
        ([sample_row 1 ''m1'' ''k1'' True 1 None, sample_row 2 ''m2'' ''k2'' True 2 None,
          sample_row 3 ''m3'' ''k3'' True 1 None] ! 2))
   \<and> (\<exists>a b. a < b \<and> b < 3
        \<and> sorted_positions (compare sample_host F_weight Desc)
            [sample_row 1 ''m1'' ''k1'' True 1 None, sample_row 2 ''m2'' ''k2'' True 2 None,
             sample_row 3 ''m3'' ''k3'' True 1 None] ! a = 0
        \<and> sorted_positions (compare sample_host F_weight Desc)
            [sample_row 1 ''m1'' ''k1'' True 1 None, sample_row 2 ''m2'' ''k2'' True 2 None,
             sample_row 3 ''m3'' ''k3'' True 1 None] ! b = 2)
   \<and> map uid (sortData sample_host F_weight Desc
        [sample_row 1 ''m1'' ''k1'' True 1 None, sample_row 2 ''m2'' ''k2'' True 2 None,
         sample_row 3 ''m3'' ''k3'' True 1 None])
      = [Num (Fin 2), Num (Fin 1), Num (Fin 3)]"
proof -
  let ?d = "[sample_row 1 ''m1'' ''k1'' True 1 None, sample_row 2 ''m2'' ''k2'' True 2 None,
             sample_row 3 ''m3'' ''k3'' True 1 None]"
  have c: "consistent (compare sample_host F_weight Desc) ?d"
    by code_simp
  have n: "\<not> positive (compare sample_host F_weight Desc (?d ! 0) (?d ! 2))"
    by code_simp
  have o: "map uid (sortData sample_host F_weight Desc ?d)
      = [Num (Fin 2), Num (Fin 1), Num (Fin 3)]"
    by code_simp
  let ?p = "sorted_positions (compare sample_host F_weight Desc) ?d"
  note t = sortData_stable [OF conforming_sample_host c]
  have st: "\<forall>i j. i < j \<and> j < length ?d
          \<and> \<not> positive (compare sample_host F_weight Desc (?d ! i) (?d ! j)) \<longrightarrow>
          (\<exists>a b. a < b \<and> b < length ?d \<and> ?p ! a = i \<and> ?p ! b = j)"
    by (rule conjunct2 [OF conjunct2 [OF conjunct2 [OF conjunct2 [OF t]]]])
  have l: "(0::nat) < 2" "2 < length ?d" by simp_all
  have "\<exists>a b. a < b \<and> b < length ?d \<and> ?p ! a = 0 \<and> ?p ! b = 2"
    by (rule st [rule_format, of 0 2]) (intro conjI l n)
  moreover have "length ?d = 3" by simp
  ultimately have "\<exists>a b. a < b \<and> b < 3 \<and> ?p ! a = 0 \<and> ?p ! b = 2"
    by (simp only:)
  then show ?thesis by (intro conjI c n o)
qed

subsection \<open>Sorting by the average\<close>

lemma num_less_irrefl: "\<not> num_less a a"
  by (cases a) simp_all

lemma num_less_trans: "num_less a b \<Longrightarrow> num_less b c \<Longrightarrow> num_less a c"
  by (cases a; cases b; cases c) simp_all

lemma num_less_linear: "a \<noteq> NaN \<Longrightarrow> b \<noteq> NaN \<Longrightarrow> num_less a b \<or> a = b \<or> num_less b a"
  by (cases a; cases b) auto

lemma compare_avg:
  "compare h F_avgEnvScore sd a b =
     (if sd = Asc then sub (score a) (score b) else sub (score b) (score a))"
  by (simp add: compare_def score_def Let_def)

lemma score_NaN: "(score r = NaN) = (avgEnvScore r = Some NaN)"
  by (simp add: score_def split: option.splits)

lemma compare_avg_signs:
  assumes "avgEnvScore a \<noteq> Some NaN \<and> is_double (score a)"
    and "avgEnvScore b \<noteq> Some NaN \<and> is_double (score b)"
  shows "positive (compare h F_avgEnvScore sd a b) =
           (if sd = Asc then num_less (score b) (score a) else num_less (score a) (score b))"
    and "negative (compare h F_avgEnvScore sd a b) =
           (if sd = Asc then num_less (score a) (score b) else num_less (score b) (score a))"
    and "is_zero (compare h F_avgEnvScore sd a b) = (score a = score b)"
proof -
  from assms have a: "is_double (score a)" "score a \<noteq> NaN"
    and b: "is_double (score b)" "score b \<noteq> NaN"
    by (simp_all add: score_NaN)
  note ab = sub_sign [OF a(1) b(1) a(2) b(2)] and ba = sub_sign [OF b(1) a(1) b(2) a(2)]
  show "positive (compare h F_avgEnvScore sd a b) =
           (if sd = Asc then num_less (score b) (score a) else num_less (score a) (score b))"
    and "negative (compare h F_avgEnvScore sd a b) =
           (if sd = Asc then num_less (score a) (score b) else num_less (score b) (score a))"
    by (simp_all add: compare_avg ab ba)
  show "is_zero (compare h F_avgEnvScore sd a b) = (score a = score b)"
    using num_less_linear [OF a(2) b(2)] num_less_irrefl [of "score a"]
    by (auto simp: compare_avg is_zero_def ab ba)
qed

lemma consistent_avg:
  assumes "\<forall>r\<in>set data. avgEnvScore r \<noteq> Some NaN \<and> is_double (score r)"
  shows "consistent (compare h F_avgEnvScore sd) data"
  unfolding consistent_def
proof (intro ballI)
  fix a b d
  assume "a \<in> set data" "b \<in> set data" "d \<in> set data"
  with assms have a: "avgEnvScore a \<noteq> Some NaN \<and> is_double (score a)"
    and b: "avgEnvScore b \<noteq> Some NaN \<and> is_double (score b)"
    and d: "avgEnvScore d \<noteq> Some NaN \<and> is_double (score d)"
    by blast+
  note s = compare_avg_signs [OF a a] compare_avg_signs [OF a b] compare_avg_signs [OF b a]
    compare_avg_signs [OF b d] compare_avg_signs [OF a d]
  show "is_zero (compare h F_avgEnvScore sd a a)
        \<and> (is_zero (compare h F_avgEnvScore sd a b) \<longrightarrow> is_zero (compare h F_avgEnvScore sd b a))
        \<and> (is_zero (compare h F_avgEnvScore sd a b) \<and> is_zero (compare h F_avgEnvScore sd b d)
             \<longrightarrow> is_zero (compare h F_avgEnvScore sd a d))
        \<and> (negative (compare h F_avgEnvScore sd a b) \<and> negative (compare h F_avgEnvScore sd b d)
             \<longrightarrow> negative (compare h F_avgEnvScore sd a d))
        \<and> (positive (compare h F_avgEnvScore sd a b) \<and> positive (compare h F_avgEnvScore sd b d)
             \<longrightarrow> positive (compare h F_avgEnvScore sd a d))"
    unfolding s
    using num_less_trans [of "score a" "score b" "score d"]
      num_less_trans [of "score d" "score b" "score a"]
    by auto
qed

lemma compare_as_lowest:
  "compare h F_avgEnvScore sd (as_lowest a) (as_lowest b) = compare h F_avgEnvScore sd a b"
  by (simp add: compare_def as_lowest_def score_def Let_def)

lemma score_as_lowest: "score (as_lowest r) = score r"
  by (simp add: as_lowest_def score_def)

lemma avgEnvScore_as_lowest: "avgEnvScore (as_lowest r) = Some (score r)"
  by (simp add: as_lowest_def)

text \<open>
  C6, as stated, fails: a record whose average is \<open>-\<infinity>\<close> (the cell \<^verbatim>\<open>"-Infinity/x/1"\<close>)
  has a numeric score, yet an absent score is compared as \<open>-\<infinity>\<close> too: the two compare
  equal and keep their input order, so descending the record with the absent score
  stays before the one with the numeric score.
\<close>

theorem absent_before_negative_infinity:
  "map avgEnvScore (sortData sample_host F_avgEnvScore Desc
      (projr (decode [''UID'', ''SAT''] [''SAT'']
         [[Num (Fin 1), Str []], [Num (Fin 2), Str ''-Infinity/x/1'']])))
   = [None, Some NegInf]"
  by code_simp

text \<open>
  C6, amended: on an engine that conforms to the language, sorting by \<^verbatim>\<open>avgEnvScore\<close> a
  list in which no average is \<^verbatim>\<open>NaN\<close> (and every average is a double), in either
  direction, orders a record with an absent average exactly as if its average were
  \<open>-\<infinity>\<close>, the lowest value: the comparison function does not tell the two apart, and
  sorting the list with \<open>-\<infinity>\<close> written in for the absent averages gives the same
  arrangement. Descending order places every absent-score record after every record
  whose score is a number above \<open>-\<infinity>\<close> (negative ones included), and ascending order
  before it. A record whose score is \<open>-\<infinity>\<close> compares equal to an absent-score record,
  and the two keep their input order.
\<close>

theorem absent_score_lowest:
  assumes "conforming h"
    and "\<forall>r\<in>set data. avgEnvScore r \<noteq> Some NaN \<and> is_double (score r)"
  shows "(\<forall>a b. compare h F_avgEnvScore sd (as_lowest a) (as_lowest b)
                  = compare h F_avgEnvScore sd a b)
   \<and> sortData h F_avgEnvScore sd (map as_lowest data)
       = map as_lowest (sortData h F_avgEnvScore sd data)
   \<and> (\<forall>i j v. i < length data \<and> j < length data
         \<and> avgEnvScore (sortData h F_avgEnvScore sd data ! i) = None
         \<and> avgEnvScore (sortData h F_avgEnvScore sd data ! j) = Some v \<and> v \<noteq> NegInf \<longrightarrow>
         (if sd = Desc then j < i else i < j))
   \<and> sortData h F_avgEnvScore sd data
       = map ((!) data) (sorted_positions (compare h F_avgEnvScore sd) data)
   \<and> (\<forall>i j. i < j \<and> j < length data
         \<and> score (data ! i) = NegInf \<and> score (data ! j) = NegInf \<longrightarrow>
         is_zero (compare h F_avgEnvScore sd (data ! i) (data ! j))
         \<and> (\<exists>a b. a < b \<and> b < length data
               \<and> sorted_positions (compare h F_avgEnvScore sd) data ! a = i
               \<and> sorted_positions (compare h F_avgEnvScore sd) data ! b = j))"
proof (intro conjI impI allI)
  let ?c = "compare h F_avgEnvScore sd"
  let ?out = "sortData h F_avgEnvScore sd data"
  have cons: "consistent ?c data" using assms(2) by (rule consistent_avg)
  note out = sortData_conforming [OF assms(1) cons]
  have len: "length ?out = length data" by (simp add: out)
  have mem: "set ?out = set data" by (simp add: out)
  have sorted: "sorted_wrt (\<lambda>a b. \<not> positive (?c a b)) ?out"
    unfolding out by (rule insertion_sort_sorted [OF cons])
  show "compare h F_avgEnvScore sd (as_lowest a) (as_lowest b) = ?c a b" for a b
    by (rule compare_as_lowest)
  show "sortData h F_avgEnvScore sd (map as_lowest data) = map as_lowest ?out"
  proof -
    have "\<forall>r\<in>set (map as_lowest data). avgEnvScore r \<noteq> Some NaN \<and> is_double (score r)"
      using assms(2) by (auto simp: score_as_lowest avgEnvScore_as_lowest score_NaN)
    then have "consistent ?c (map as_lowest data)" by (rule consistent_avg)
    then have "sortData h F_avgEnvScore sd (map as_lowest data)
        = insertion_sort ?c (map as_lowest data)"
      by (rule sortData_conforming [OF assms(1)])
    also have "\<dots> = map as_lowest (insertion_sort (\<lambda>a b. ?c (as_lowest a) (as_lowest b)) data)"
      by (rule map_insertion_sort [symmetric])
    also have "\<dots> = map as_lowest ?out"
      by (simp only: out compare_as_lowest)
    finally show ?thesis .
  qed
  show "?out = map ((!) data) (sorted_positions ?c data)"
    by (simp add: out sorted_positions_props)
next
  fix i j v
  let ?c = "compare h F_avgEnvScore sd"
  let ?out = "sortData h F_avgEnvScore sd data"
  assume h: "i < length data \<and> j < length data \<and> avgEnvScore (?out ! i) = None
           \<and> avgEnvScore (?out ! j) = Some v \<and> v \<noteq> NegInf"
  have cons: "consistent ?c data" using assms(2) by (rule consistent_avg)
  note out = sortData_conforming [OF assms(1) cons]
  have len: "length ?out = length data" by (simp add: out)
  have mem: "set ?out = set data" by (simp add: out)
  have sorted: "sorted_wrt (\<lambda>a b. \<not> positive (?c a b)) ?out"
    unfolding out by (rule insertion_sort_sorted [OF cons])
  have "?out ! i \<in> set ?out" "?out ! j \<in> set ?out"
    using h len by simp_all
  then have mi: "?out ! i \<in> set data" and mj: "?out ! j \<in> set data"
    by (simp_all only: mem)
  from mi assms(2) have pi: "avgEnvScore (?out ! i) \<noteq> Some NaN \<and> is_double (score (?out ! i))"
    by blast
  from mj assms(2) have pj: "avgEnvScore (?out ! j) \<noteq> Some NaN \<and> is_double (score (?out ! j))"
    by blast
  from pj h have v: "v \<noteq> NaN" by auto
  have si: "score (?out ! i) = NegInf" and sj: "score (?out ! j) = v"
    using h by (simp_all add: score_def)
  have less: "num_less NegInf v" using v h by (cases v) simp_all
  have ne: "i \<noteq> j" using h by auto
  show "if sd = Desc then j < i else i < j"
  proof (cases sd)
    case Asc
    have "\<not> j < i"
    proof
      assume "j < i"
      from sorted_wrt_nth_less [OF sorted this] h len
      have "\<not> positive (?c (?out ! j) (?out ! i))" by simp
      then show False
        unfolding compare_avg_signs(1) [OF pj pi] si sj using Asc less by simp
    qed
    with ne Asc show ?thesis by simp
  next
    case Desc
    have "\<not> i < j"
    proof
      assume "i < j"
      from sorted_wrt_nth_less [OF sorted this] h len
      have "\<not> positive (?c (?out ! i) (?out ! j))" by simp
      then show False
        unfolding compare_avg_signs(1) [OF pi pj] si sj using Desc less by simp
    qed
    with ne Desc show ?thesis by simp
  qed
next
  fix i j
  let ?c = "compare h F_avgEnvScore sd"
  assume h: "i < j \<and> j < length data \<and> score (data ! i) = NegInf \<and> score (data ! j) = NegInf"
  then have "data ! i \<in> set data" "data ! j \<in> set data" by simp_all
  with assms(2) have pi: "avgEnvScore (data ! i) \<noteq> Some NaN \<and> is_double (score (data ! i))"
    and pj: "avgEnvScore (data ! j) \<noteq> Some NaN \<and> is_double (score (data ! j))"
    by blast+
  show z: "is_zero (?c (data ! i) (data ! j))"
    unfolding compare_avg_signs(3) [OF pi pj] using h by simp
  then have "\<not> positive (?c (data ! i) (data ! j))" by (simp add: is_zero_def)
  with h show "\<exists>a b. a < b \<and> b < length data
               \<and> sorted_positions ?c data ! a = i \<and> sorted_positions ?c data ! b = j"
    using sorted_positions_stable [of i j data ?c] by blast
qed

theorem absent_score_lowest_witness:
  "list_all (\<lambda>r. avgEnvScore r \<noteq> Some NaN \<and> is_double (score r))
      [sample_row 1 ''m1'' ''k1'' True 1 None, sample_row 2 ''m2'' ''k2'' True 2 (Some (Fin (- 5))),
       sample_row 3 ''m3'' ''k3'' True 1 (Some (Fin 7)),
       sample_row 4 ''m4'' ''k4'' True 1 (Some NegInf)]
   \<and> map avgEnvScore (sortData sample_host F_avgEnvScore Desc
        [sample_row 1 ''m1'' ''k1'' True 1 None, sample_row 2 ''m2'' ''k2'' True 2 (Some (Fin (- 5))),
         sample_row 3 ''m3'' ''k3'' True 1 (Some (Fin 7)),
         sample_row 4 ''m4'' ''k4'' True 1 (Some NegInf)])
      = [Some (Fin 7), Some (Fin (- 5)), None, Some NegInf]
   \<and> (1::nat) < 2
   \<and> (\<exists>a b. a < b \<and> b < 4
        \<and> sorted_positions (compare sample_host F_avgEnvScore Desc)
            [sample_row 1 ''m1'' ''k1'' True 1 None,
             sample_row 2 ''m2'' ''k2'' True 2 (Some (Fin (- 5))),
             sample_row 3 ''m3'' ''k3'' True 1 (Some (Fin 7)),
             sample_row 4 ''m4'' ''k4'' True 1 (Some NegInf)] ! a = 0
        \<and> sorted_positions (compare sample_host F_avgEnvScore Desc)
            [sample_row 1 ''m1'' ''k1'' True 1 None,
             sample_row 2 ''m2'' ''k2'' True 2 (Some (Fin (- 5))),
             sample_row 3 ''m3'' ''k3'' True 1 (Some (Fin 7)),
             sample_row 4 ''m4'' ''k4'' True 1 (Some NegInf)] ! b = 3)"
proof -
  let ?d = "[sample_row 1 ''m1'' ''k1'' True 1 None, sample_row 2 ''m2'' ''k2'' True 2 (Some (Fin (- 5))),
             sample_row 3 ''m3'' ''k3'' True 1 (Some (Fin 7)),
             sample_row 4 ''m4'' ''k4'' True 1 (Some NegInf)]"
  let ?out = "sortData sample_host F_avgEnvScore Desc ?d"
  let ?p = "sorted_positions (compare sample_host F_avgEnvScore Desc) ?d"
  have la: "list_all (\<lambda>r. avgEnvScore r \<noteq> Some NaN \<and> is_double (score r)) ?d"
    by code_simp
  then have nn: "\<forall>r\<in>set ?d. avgEnvScore r \<noteq> Some NaN \<and> is_double (score r)"
    by (simp only: list_all_iff)
  note t = absent_score_lowest [OF conforming_sample_host nn, of Desc]
  have out: "map avgEnvScore ?out = [Some (Fin 7), Some (Fin (- 5)), None, Some NegInf]"
    by code_simp
  have i: "avgEnvScore (?out ! 2) = None" by code_simp
  have j: "avgEnvScore (?out ! 1) = Some (Fin (- 5))" by code_simp
  have l: "length ?d = 4" by simp
  have pos: "\<forall>i j v. i < length ?d \<and> j < length ?d
         \<and> avgEnvScore (?out ! i) = None
         \<and> avgEnvScore (?out ! j) = Some v \<and> v \<noteq> NegInf \<longrightarrow>
         (if Desc = Desc then j < i else i < j)"
    by (rule conjunct1 [OF conjunct2 [OF conjunct2 [OF t]]])
  have "if Desc = Desc then (1::nat) < 2 else (2::nat) < 1"
    by (rule pos [rule_format, of 2 1 "Fin (- 5)"]) (intro conjI i j, simp_all)
  then have 1: "(1::nat) < 2" by simp
  have tie: "\<forall>i j. i < j \<and> j < length ?d
         \<and> score (?d ! i) = NegInf \<and> score (?d ! j) = NegInf \<longrightarrow>
         is_zero (compare sample_host F_avgEnvScore Desc (?d ! i) (?d ! j))
         \<and> (\<exists>a b. a < b \<and> b < length ?d \<and> ?p ! a = i \<and> ?p ! b = j)"
    by (rule conjunct2 [OF conjunct2 [OF conjunct2 [OF conjunct2 [OF t]]]])
  have s0: "score (?d ! 0) = NegInf" and s3: "score (?d ! 3) = NegInf"
    by (simp_all add: score_def sample_row_def)
  have "is_zero (compare sample_host F_avgEnvScore Desc (?d ! 0) (?d ! 3))
         \<and> (\<exists>a b. a < b \<and> b < length ?d \<and> ?p ! a = 0 \<and> ?p ! b = 3)"
    by (rule tie [rule_format, of 0 3]) (intro conjI s0 s3, simp_all)
  then have "\<exists>a b. a < b \<and> b < length ?d \<and> ?p ! a = 0 \<and> ?p ! b = 3" by (rule conjunct2)
  then have 2: "\<exists>a b. a < b \<and> b < 4 \<and> ?p ! a = 0 \<and> ?p ! b = 3" by (simp only: l)
  show ?thesis by (intro conjI la out 1 2)
qed

section \<open>Search and tabs\<close>

lemma filter_throw_eq:
  "filter_throw p xs =
     (if \<exists>x\<in>set xs. isl (p x) then Inl TypeError else Inr (filter (\<lambda>x. p x = Inr True) xs))"
  by (induction xs) (auto split: sum.splits simp: error_is_TypeError)

lemma includes_str_sublist: "includes_str s q = sublist q s"
  by (induction s) (simp_all add: sublist_Cons_right)

lemma map_eq_append3:
  assumes "map f s = ps @ qs @ ss"
  shows "\<exists>ps' t ss'. s = ps' @ t @ ss' \<and> map f t = qs"
proof (intro exI conjI)
  let ?n = "length ps" and ?m = "length qs"
  show "s = take ?n s @ take ?m (drop ?n s) @ drop ?m (drop ?n s)"
    by (simp only: append_take_drop_id)
  have "map f (take ?m (drop ?n s)) = take ?m (drop ?n (map f s))"
    by (simp add: take_map drop_map)
  also have "\<dots> = qs" by (simp add: assms)
  finally show "map f (take ?m (drop ?n s)) = qs" .
qed

lemma ci_substring_iff: "ci_substring q s = sublist (toLowerCase q) (toLowerCase s)"
proof
  assume "ci_substring q s"
  then obtain t where t: "sublist t s" "toLowerCase t = toLowerCase q"
    unfolding ci_substring_def by blast
  from t(1) obtain ps ss where "s = ps @ t @ ss"
    unfolding sublist_def by blast
  then have "toLowerCase s = toLowerCase ps @ toLowerCase q @ toLowerCase ss"
    using t(2) by (simp add: toLowerCase_def)
  then show "sublist (toLowerCase q) (toLowerCase s)"
    unfolding sublist_def by blast
next
  assume "sublist (toLowerCase q) (toLowerCase s)"
  then obtain ps ss where "map lower_char s = ps @ map lower_char q @ ss"
    unfolding sublist_def toLowerCase_def by blast
  from map_eq_append3 [OF this]
  obtain t ps' ss' where "s = ps' @ t @ ss'" "map lower_char t = map lower_char q"
    by blast
  then have "sublist t s" "toLowerCase t = toLowerCase q"
    unfolding sublist_def toLowerCase_def by blast+
  then show "ci_substring q s"
    unfolding ci_substring_def by blast
qed

lemma search_match_typed:
  assumes "model r = Str m" "hotkey r = Str k" "uid r = Num n"
  shows "search_match h q r =
     Inr (ci_substring q m \<or> ci_substring q k \<or> sublist q (number_toString h n))"
  using assms
  by (simp add: search_match_def toString_def includes_str_sublist ci_substring_iff)

lemma is_stringE: "is_string c \<Longrightarrow> \<exists>s. c = Str s"
  by (cases c) (simp_all add: is_string_def)

lemma is_numberE: "is_number c \<Longrightarrow> \<exists>n. c = Num n"
  by (cases c) (simp_all add: is_number_def)

lemma search_match_typed_row:
  assumes "typed_row r"
  shows "search_match h q r = Inr (query_matches h q r)"
proof -
  from assms obtain m k n where t: "model r = Str m" "hotkey r = Str k" "uid r = Num n"
    unfolding typed_row_def using is_stringE is_numberE by blast
  show ?thesis
    by (simp add: search_match_typed [OF t] query_matches_def t)
qed



lemma filterData_eq:
  "filterData h q tab data =
       (if q \<noteq> [] \<and> (\<exists>r\<in>set data. isl (search_match h q r)) then Inl TypeError
        else Inr (filter (\<lambda>r. (q = [] \<or> search_match h q r = Inr True) \<and> (tab = All \<or> eligible r)) data))"
  by (cases tab) (auto simp: filterData_def filter_throw_eq)

lemma filterData_typed:
  assumes "\<forall>r\<in>set data. typed_row r"
  shows "filterData h q tab data =
     Inr (filter (\<lambda>r. (q = [] \<or> query_matches h q r) \<and> (tab = All \<or> eligible r)) data)"
proof -
  have 1: "\<not> (\<exists>r\<in>set data. isl (search_match h q r))"
    using assms by (auto simp: search_match_typed_row)
  have 2: "filter (\<lambda>r. (q = [] \<or> search_match h q r = Inr True) \<and> (tab = All \<or> eligible r)) data
      = filter (\<lambda>r. (q = [] \<or> query_matches h q r) \<and> (tab = All \<or> eligible r)) data"
    using assms by (intro filter_cong refl) (auto simp: search_match_typed_row)
  show ?thesis
    unfolding filterData_eq [of h q tab data] using 1 2 by simp
qed

lemma typed_sample_row: "typed_row (sample_row u m k e w s)"
  by (simp add: typed_row_def sample_row_def is_string_def is_number_def)


lemma number_toString_int:
  assumes "\<bar>u\<bar> \<le> 2 ^ 53"
  shows "number_toString h (Fin (of_int u)) = (if u < 0 then ''-'' else []) @ decimal \<bar>u\<bar>"
proof -
  have "(of_int \<bar>u\<bar> :: rat) \<le> of_int (2 ^ 53)"
    using assms by (simp only: of_int_le_iff)
  then have "\<bar>of_int u :: rat\<bar> \<le> 9007199254740992" by simp
  then show ?thesis
    by (simp add: number_toString_def)
qed

text \<open>
  C8: with the empty query and the tab \<^verbatim>\<open>all\<close>, \<^verbatim>\<open>filterData\<close> returns the records
  unchanged; with the tab \<^verbatim>\<open>eligible\<close> it returns exactly the eligible records in their
  input order; and the search and the tab compose as a conjunction: a record is kept when
  it passes both. (The search throws on a record whose \<^verbatim>\<open>model\<close> or \<^verbatim>\<open>hotkey\<close> is not a
  string; on records of the declared type it never does.)
\<close>

theorem filterData_tabs:
  "filterData h [] All data = Inr data
   \<and> filterData h [] Eligible data = Inr (filter eligible data)
   \<and> filterData h q tab data =
       (if q \<noteq> [] \<and> (\<exists>r\<in>set data. isl (search_match h q r)) then Inl TypeError
        else Inr (filter (\<lambda>r. (q = [] \<or> search_match h q r = Inr True)
                               \<and> (tab = All \<or> eligible r)) data))
   \<and> ((\<forall>r\<in>set data. typed_row r) \<longrightarrow>
        filterData h q tab data =
          Inr (filter (\<lambda>r. (q = [] \<or> query_matches h q r) \<and> (tab = All \<or> eligible r)) data))"
proof (intro conjI impI)
  show "filterData h [] All data = Inr data"
    by (simp add: filterData_def)
  show "filterData h [] Eligible data = Inr (filter eligible data)"
    by (simp add: filterData_def)
  show "filterData h q tab data =
       (if q \<noteq> [] \<and> (\<exists>r\<in>set data. isl (search_match h q r)) then Inl TypeError
        else Inr (filter (\<lambda>r. (q = [] \<or> search_match h q r = Inr True)
                               \<and> (tab = All \<or> eligible r)) data))"
    by (rule filterData_eq)
next
  assume "\<forall>r\<in>set data. typed_row r"
  then show "filterData h q tab data =
          Inr (filter (\<lambda>r. (q = [] \<or> query_matches h q r) \<and> (tab = All \<or> eligible r)) data)"
    by (rule filterData_typed)
qed

theorem filterData_tabs_witness:
  "filterData sample_host ''A'' Eligible
      [sample_row 12 ''alpha'' ''5Fa'' True 1 None, sample_row 123 ''beta'' ''5Gb'' False 1 None,
       sample_row 45 ''xyz'' ''5Hc'' True 1 None]
     = Inr [sample_row 12 ''alpha'' ''5Fa'' True 1 None]"
proof -
  let ?a = "sample_row 12 ''alpha'' ''5Fa'' True 1 None"
  let ?b = "sample_row 123 ''beta'' ''5Gb'' False 1 None"
  let ?c = "sample_row 45 ''xyz'' ''5Hc'' True 1 None"
  have ty: "\<forall>r\<in>set [?a, ?b, ?c]. typed_row r" by (simp add: typed_sample_row)
  note t = filterData_tabs [where data = "[?a, ?b, ?c]" and h = sample_host and q = "''A''"
      and tab = Eligible]
  from ty t have 1: "filterData sample_host ''A'' Eligible [?a, ?b, ?c] =
      Inr (filter (\<lambda>r. (''A'' = [] \<or> query_matches sample_host ''A'' r)
                         \<and> (Eligible = All \<or> eligible r)) [?a, ?b, ?c])"
    by blast
  have qa: "query_matches sample_host ''A'' ?a"
    by (simp add: query_matches_def sample_row_def ci_substring_iff toLowerCase_def lower_char_def
        sublist_Cons_right)
  have qc: "\<not> query_matches sample_host ''A'' ?c"
    using number_toString_int [of 45 sample_host]
    by (simp add: query_matches_def sample_row_def ci_substring_iff toLowerCase_def lower_char_def
        sublist_Cons_right decimal.simps)
  have e: "eligible ?a" "\<not> eligible ?b" "eligible ?c" by (simp_all add: sample_row_def)
  show ?thesis unfolding 1 using qa qc e by simp
qed



section \<open>Missing columns\<close>

text \<open>
  C2 (a defect of the code): a header with the columns \<^verbatim>\<open>Pts\<close> and \<^verbatim>\<open>Wgt\<close> only. The
  fields written with \<^verbatim>\<open>|| 0\<close> get their default, the environment cell gets \<^verbatim>\<open>''\<close>, and
  \<^verbatim>\<open>eligible\<close> is false; but \<^verbatim>\<open>uid\<close>, \<^verbatim>\<open>hotkey\<close>, \<^verbatim>\<open>model\<close>, \<^verbatim>\<open>revision\<close> and
  \<^verbatim>\<open>firstBlock\<close>, written without a default, are left \<^verbatim>\<open>undefined\<close>.
\<close>

theorem missing_columns_left_undefined:
  "map_sum id (\<lambda>r. (uid r, hotkey r, model r, revision r, firstBlock r))
      (decode_row [''Pts'', ''Wgt''] [''SAT''] [Num (Fin 3), Num (Fin 0.5)])
     = Inr (Undefined, Undefined, Undefined, Undefined, Undefined)
   \<and> map_sum id (\<lambda>r. (totalPoints r, weight r, layerPoints r, eligible r, environments r,
                       avgEnvScore r, totalSamples r))
      (decode_row [''Pts'', ''Wgt''] [''SAT''] [Num (Fin 3), Num (Fin 0.5)])
     = Inr (Num (Fin 3), Num (Fin 0.5),
            [(''L3'', Num (Fin 0)), (''L4'', Num (Fin 0)), (''L5'', Num (Fin 0)),
             (''L6'', Num (Fin 0)), (''L7'', Num (Fin 0)), (''L8'', Num (Fin 0))],
            False, [(''SAT'', Str [])], None, Fin 0)"
  by code_simp

text \<open>The search then throws on such a record, as it reads \<^verbatim>\<open>item.model.toLowerCase()\<close>.\<close>

lemma search_throws_on_missing_model:
  "filterData sample_host ''a'' All
      (projr (decode [''Pts'', ''Wgt''] [''SAT''] [[Num (Fin 3), Num (Fin 0.5)]]))
     = Inl TypeError"
  by code_simp

section \<open>A failed refresh\<close>

lemma fetchData_rejected:
  "resp = NetworkError \<or> resp = MalformedJson \<Longrightarrow>
   fetchData st resp now = st\<lparr>isLoading := False\<rparr>"
  by (auto simp: fetchData_def)

lemma fetchData_decode_throws:
  assumes "isl (decode (data_header d) (data_environments d) (data_rows d))"
  shows "fetchData st (Json d) now = st\<lparr>weightsData := Some d, isLoading := False\<rparr>"
  using assms by (auto simp: fetchData_def Let_def split: sum.splits)

lemma fetchData_decoded:
  assumes "decode (data_header d) (data_environments d) (data_rows d) = Inr ms"
  shows "fetchData st (Json d) now =
     st\<lparr>weightsData := Some d, models := ms, lastUpdate := now, isLoading := False\<rparr>"
  using assms by (simp add: fetchData_def Let_def)

text \<open>
  C10 (a defect of the code): \<^verbatim>\<open>setWeightsData(data)\<close> runs before the rows are decoded.
  When the decoding throws, here on a numeric environment cell, the record set and the
  time of the last update keep their values, but the stored payload, from which the page
  shows the block number, the statistics and the environment columns, is already the new
  one: the old state is overwritten in part.
\<close>

theorem fetchData_partial_overwrite:
  "models (fetchData sample_state (Json bad_payload) 2000) = models sample_state
   \<and> lastUpdate (fetchData sample_state (Json bad_payload) 2000) = lastUpdate sample_state
   \<and> weightsData (fetchData sample_state (Json bad_payload) 2000) = Some bad_payload
   \<and> weightsData sample_state \<noteq> Some bad_payload"
  by code_simp

end
